theory Spec2Isabelle
  imports Main "HOL-Library.AList" "HOL-Library.Sublist"
begin

section \<open>The AppSyncApi construct of serverless-stack\<close>

text \<open>
  This theory embeds the key-driven binding logic of
  \<^verbatim>\<open>packages/resources/src/AppSyncApi.ts\<close>: the resolver-key normalizer, the
  derivation of implicit data-source keys, the mapping-template builder, the
  registries of the construct with \<^verbatim>\<open>addDataSource\<close> and \<^verbatim>\<open>addResolver\<close>,
  the lookups and the propagation of permissions.

  Conventions of the embedding.
  \<^item> A JavaScript string is a \<^typ>\<open>string\<close>; a character stands for one code
    unit below 256.
  \<^item> A JavaScript object used as a dictionary is the association list of its
    own properties, in the order they were defined, together with its
    prototype. \<^verbatim>\<open>Object.keys\<close> and \<^verbatim>\<open>Object.values\<close> list the own
    properties. \<^verbatim>\<open>obj[k]\<close> reads an own property or, when there is none, the
    property of that name of the prototype: for an object written \<^verbatim>\<open>{}\<close>
    that is one of the members of \<^verbatim>\<open>Object.prototype\<close>, or \<^verbatim>\<open>undefined\<close>.
    \<^verbatim>\<open>obj[k] = v\<close> defines or replaces the own property \<open>k\<close>
    (\<^const>\<open>AList.update\<close>), except for the name \<^verbatim>\<open>__proto__\<close>, whose assignment
    replaces the prototype by \<open>v\<close> when \<open>v\<close> is an object.
  \<^item> A thrown \<^verbatim>\<open>Error\<close> is the \<^const>\<open>Inl\<close> of a result; the mutations made
    before the throw stay in the returned state, as they do in the object.
  \<^item> The constructs created outside this file (functions, data sources,
    resolvers) are handles, natural numbers handed out by the resource
    provider, which is a parameter of the model and may refuse a request.
\<close>

subsection \<open>Splitting and joining strings\<close>

text \<open>The class \<^verbatim>\<open>\s\<close> of a JavaScript regular expression, below code unit 256.\<close>

definition isWhitespace :: "char \<Rightarrow> bool" where
  "isWhitespace c \<longleftrightarrow>
     c = CHR 0x09 \<or> c = CHR 0x0A \<or> c = CHR 0x0B \<or> c = CHR 0x0C \<or> c = CHR 0x0D \<or>
     c = CHR '' '' \<or> c = CHR 0xA0"

text \<open>
  \<^verbatim>\<open>s.split(/\s+/)\<close>: every maximal run of whitespace is one separator. A
  run at the start or at the end leaves an empty string there, and the empty
  string splits into one empty string.
\<close>

function splitWhitespace :: "string \<Rightarrow> string list" where
  "splitWhitespace [] = [[]]"
| "splitWhitespace (c # cs) =
     (if isWhitespace c then [] # splitWhitespace (dropWhile isWhitespace cs)
      else (case splitWhitespace cs of
              [] \<Rightarrow> [[c]]
            | w # ws \<Rightarrow> (c # w) # ws))"
  by pat_completeness auto
termination
  by (relation "measure length") (auto simp: less_Suc_eq_le length_dropWhile_le)

text \<open>\<^verbatim>\<open>s.split(" ")\<close>: every single space is a separator.\<close>

fun splitSpace :: "string \<Rightarrow> string list" where
  "splitSpace [] = [[]]"
| "splitSpace (c # cs) =
     (if c = CHR '' '' then [] # splitSpace cs
      else (case splitSpace cs of
              [] \<Rightarrow> [[c]]
            | w # ws \<Rightarrow> (c # w) # ws))"

text \<open>\<^verbatim>\<open>parts.join(" ")\<close>.\<close>

fun joinSpace :: "string list \<Rightarrow> string" where
  "joinSpace [] = []"
| "joinSpace [w] = w"
| "joinSpace (w # v # ws) = w @ CHR '' '' # joinSpace (v # ws)"


subsection \<open>Keys\<close>

text \<open>\<^verbatim>\<open>normalizeResolverKey\<close> (lines 861-864).\<close>

definition normalizeResolverKey :: "string \<Rightarrow> string" where
  "normalizeResolverKey resolverKey = joinSpace (splitWhitespace resolverKey)"

text \<open>\<^verbatim>\<open>buildDataSourceKey\<close> (lines 882-884).\<close>

definition buildDataSourceKey :: "string \<Rightarrow> string \<Rightarrow> string" where
  "buildDataSourceKey typeName fieldName = ''LambdaDS_'' @ typeName @ ''_'' @ fieldName"

subsection \<open>Objects as dictionaries\<close>

text \<open>
  The names of the properties of \<^verbatim>\<open>Object.prototype\<close>, which every object
  written \<^verbatim>\<open>{}\<close> inherits: the eleven functions and the accessor
  \<^verbatim>\<open>__proto__\<close>.
\<close>

definition objectPrototype :: "string list" where
  "objectPrototype =
     [''constructor'', ''__defineGetter__'', ''__defineSetter__'', ''hasOwnProperty'',
      ''__lookupGetter__'', ''__lookupSetter__'', ''isPrototypeOf'', ''propertyIsEnumerable'',
      ''toString'', ''valueOf'', ''__proto__'', ''toLocaleString'']"

text \<open>
  What \<^verbatim>\<open>obj[k]\<close> gives for a dictionary of values of some type:
  \<^verbatim>\<open>undefined\<close>, a value of the dictionary, the member of
  \<^verbatim>\<open>Object.prototype\<close> of a name, or the member of a name of a value that has
  become the prototype of the dictionary.
\<close>

datatype 'a property =
    Undefined
  | Value 'a
  | Inherited string
  | MemberOf 'a string

text \<open>
  \<^verbatim>\<open>obj[k]\<close>, for the own properties and the prototype of \<^verbatim>\<open>obj\<close>; the
  prototype is \<^const>\<open>None\<close> as long as it is \<^verbatim>\<open>Object.prototype\<close>. Reading
  \<^verbatim>\<open>__proto__\<close> gives the prototype itself.
\<close>

definition getProperty :: "(string \<times> 'a) list \<Rightarrow> 'a option \<Rightarrow> string \<Rightarrow> 'a property" where
  "getProperty own proto k =
     (case map_of own k of
        Some v \<Rightarrow> Value v
      | None \<Rightarrow>
          (case proto of
             None \<Rightarrow> if k \<in> set objectPrototype then Inherited k else Undefined
           | Some p \<Rightarrow> if k = ''__proto__'' then Value p else MemberOf p k))"

text \<open>
  Whether what was read is truthy, as \<^verbatim>\<open>if (!fn)\<close> asks. The values of the
  registries are objects, and so are the members of \<^verbatim>\<open>Object.prototype\<close>; of
  a member of a construct only its owner can tell.
\<close>

fun truthy :: "('a \<Rightarrow> string \<Rightarrow> bool) \<Rightarrow> 'a property \<Rightarrow> bool" where
  "truthy owner Undefined = False"
| "truthy owner (Value v) = True"
| "truthy owner (Inherited name) = True"
| "truthy owner (MemberOf v name) = owner v name"

text \<open>
  A member of \<^verbatim>\<open>Object.prototype\<close> used as a property name, that is,
  converted to a string: the functions print as native code does in V8,
  \<^verbatim>\<open>constructor\<close> under its own name \<^verbatim>\<open>Object\<close>, and \<^verbatim>\<open>__proto__\<close> reads
  as \<^verbatim>\<open>Object.prototype\<close> itself.
\<close>

definition memberString :: "string \<Rightarrow> string" where
  "memberString name =
     (if name = ''__proto__'' then ''[object Object]''
      else ''function '' @ (if name = ''constructor'' then ''Object'' else name) @
           ''() { [native code] }'')"

subsection \<open>Declarations\<close>

type_synonym handle = nat
type_synonym scope = string

text \<open>\<^verbatim>\<open>Permissions\<close> and \<^verbatim>\<open>FunctionProps\<close> are passed through unread.\<close>

type_synonym permissions = "string list"
type_synonym function_props = "(string \<times> string) list"

text \<open>\<^verbatim>\<open>FunctionDefinition = string | Fn | FunctionProps\<close>.\<close>

datatype function_definition =
    Handler string
  | FnConstruct handle
  | FnProps function_props

text \<open>
  The \<^verbatim>\<open>RDS\<close> construct as far as the source reads it:
  \<^verbatim>\<open>rds.cdk.cluster\<close>, \<^verbatim>\<open>rds.cdk.cluster.secret\<close>, \<^verbatim>\<open>rds.defaultDatabaseName\<close>;
  and \<^verbatim>\<open>cdk.dataSource\<close> of \<^verbatim>\<open>AppSyncApiRdsDataSourceProps\<close>.
\<close>

record rds_construct =
  rdsCluster :: handle
  rdsSecret :: handle
  rdsDefaultDatabaseName :: string

record rds_cdk_data_source =
  cdkServerlessCluster :: handle
  cdkSecretStore :: handle
  cdkDatabaseName :: "string option"

text \<open>
  The value of one entry of \<^verbatim>\<open>dataSources\<close>: a handler string, a
  \<^verbatim>\<open>Fn\<close>, or one of the four props interfaces (lines 56-168). The first two
  arguments of a props constructor are \<^verbatim>\<open>name\<close> and \<^verbatim>\<open>description\<close>. A
  table is given as the \<^verbatim>\<open>dynamodb.Table\<close> it wraps.
\<close>

datatype data_source_value =
    DsHandler string
  | DsFn handle
  | DsLambda "string option" "string option" function_definition
  | DsDynamoDb "string option" "string option" "handle option" "handle option"
  | DsRds "string option" "string option" "rds_construct option" "string option"
      "rds_cdk_data_source option"
  | DsHttp "string option" "string option" string

text \<open>
  \<^verbatim>\<open>MappingTemplate\<close> (lines 170-183). A JavaScript object may carry both
  fields or neither, so both are optional here.
\<close>

record mapping_template =
  mtFile :: "string option"
  mtInline :: "string option"

text \<open>
  What \<^verbatim>\<open>appsync.MappingTemplate.fromFile\<close> and \<^verbatim>\<open>fromString\<close> return: the
  path with the content read from it, or the wrapped value.
\<close>

datatype template =
    FileTemplate string string
  | StringTemplate "string option"

text \<open>\<^verbatim>\<open>cdk.resolver\<close>, which may set the two templates itself.\<close>

record cdk_resolver_props =
  cdkRequestMappingTemplate :: "template option"
  cdkResponseMappingTemplate :: "template option"
  cdkOther :: string

text \<open>\<^verbatim>\<open>AppSyncApiResolverProps\<close> (lines 188-242).\<close>

record resolver_props =
  rpDataSource :: "string option"
  rpFunction :: "function_definition option"
  rpRequestMapping :: "mapping_template option"
  rpResponseMapping :: "mapping_template option"
  rpCdkResolver :: "cdk_resolver_props option"

text \<open>The value of one entry of \<^verbatim>\<open>resolvers\<close>.\<close>

datatype resolver_value =
    ResString string
  | ResFn handle
  | ResProps resolver_props

text \<open>The \<^verbatim>\<open>resolverProps\<close> object that \<^verbatim>\<open>addResolver\<close> builds.\<close>

record resolver_config =
  requestMappingTemplate :: "template option"
  responseMappingTemplate :: "template option"
  otherConfig :: "string option"

text \<open>What backs a data source, and the data source and resolver objects.\<close>

datatype backing =
    LambdaBacking handle
  | DynamoDbBacking handle
  | RdsBacking handle handle "string option"
  | HttpBacking string

record data_source =
  dsHandle :: handle
  dsKey :: string
  dsBacking :: backing
  dsName :: "string option"
  dsDescription :: "string option"

record resolver =
  resHandle :: handle
  resTypeName :: string
  resFieldName :: string
  resDataSource :: "data_source property"
  resConfig :: resolver_config

subsection \<open>The resource provider\<close>

text \<open>
  What \<^verbatim>\<open>Fn.fromDefinition\<close> is given as its definition: a function
  definition, or, in the last branch of \<^verbatim>\<open>addDataSource\<close> and of
  \<^verbatim>\<open>addResolver\<close>, a props object cast to one.
\<close>

datatype fn_input =
    Definition function_definition
  | DataSourceObject data_source_value
  | ResolverObject resolver_props

text \<open>
  The calls that leave this file: \<^verbatim>\<open>new appsync.GraphqlApi\<close>, \<^verbatim>\<open>new Fn\<close>
  inside \<^verbatim>\<open>Fn.fromDefinition\<close> (scope, id, definition, defaults), the four
  \<^verbatim>\<open>add...DataSource\<close> methods and \<^verbatim>\<open>createResolver\<close>.
\<close>

datatype request =
    CreateApi string
  | CreateFunction scope string fn_input "function_props option"
  | CreateDataSource string backing "string option" "string option"
  | CreateResolver string string "data_source property" resolver_config

text \<open>
  The provider is a parameter: given the requests it has accepted so far it
  accepts or refuses the next one, and it reads files for
  \<^verbatim>\<open>MappingTemplate.fromFile\<close>. It also tells whether the construct of a
  handle has a truthy member of a name, which is asked only of a construct
  that has become the prototype of a registry.
\<close>

record provider =
  accepts :: "request list \<Rightarrow> request \<Rightarrow> bool"
  readFile :: "string \<Rightarrow> string option"
  hasMember :: "handle \<Rightarrow> string \<Rightarrow> bool"

text \<open>
  The errors. The first three are thrown by \<^verbatim>\<open>addResolver\<close> (lines 742, 746
  and 768); \<^verbatim>\<open>ConflictingConfiguration\<close> is the error of
  \<^verbatim>\<open>Fn.fromDefinition\<close>; the last two come from the provider.
\<close>

datatype error =
    InvalidResolverKey string
  | InvalidResolverField string
  | UnknownDataSource string string
  | ConflictingConfiguration string
  | ProviderError request
  | TemplateNotFound string

subsection \<open>The construct\<close>

text \<open>
  The fields of the class (lines 367-374), \<^verbatim>\<open>props.defaults?.function\<close>,
  \<^verbatim>\<open>cdk.graphqlApi\<close>, and the world outside: the requests the provider has
  accepted, the next handle it hands out, and the calls of
  \<^verbatim>\<open>fn.attachPermissions\<close> in their order. The four registries are objects
  written \<^verbatim>\<open>{}\<close> (lines 381-384), here their own properties. The two that
  are written under data-source keys have their prototype beside them; the
  other two are written under resolver keys that have passed the check of
  lines 741-747, which \<^verbatim>\<open>__proto__\<close> does not, so their prototype stays
  \<^verbatim>\<open>Object.prototype\<close>.
\<close>

record api =
  functionsByDsKey :: "(string \<times> handle) list"
  functionsPrototype :: "handle option"
  dataSourcesByDsKey :: "(string \<times> data_source) list"
  dataSourcesPrototype :: "data_source option"
  dsKeysByResKey :: "(string \<times> string) list"
  resolversByResKey :: "(string \<times> resolver) list"
  permissionsAttachedForAllFunctions :: "permissions list"
  defaultsFunction :: "function_props option"
  graphqlApi :: "handle option"
  accepted :: "request list"
  nextHandle :: handle
  attached :: "(handle \<times> permissions) list"

definition provide :: "provider \<Rightarrow> request \<Rightarrow> api \<Rightarrow> (error + handle) \<times> api" where
  "provide P r st =
     (if accepts P (accepted st) r
      then (Inr (nextHandle st),
            st\<lparr>accepted := accepted st @ [r], nextHandle := Suc (nextHandle st)\<rparr>)
      else (Inl (ProviderError r), st))"

text \<open>
  Modelled from the spec: \<^verbatim>\<open>Fn.fromDefinition\<close> of \<^verbatim>\<open>Function.ts\<close>, which
  is not among the sources. An already-built compute handle is used as it is,
  and is a \<^verbatim>\<open>ConflictingConfiguration\<close> error when defaults are specified;
  anything else is a new function, asked of the provider.
\<close>

definition fromDefinition ::
  "provider \<Rightarrow> scope \<Rightarrow> string \<Rightarrow> fn_input \<Rightarrow> api \<Rightarrow> (error + handle) \<times> api" where
  "fromDefinition P scope ident input st =
     (case input of
        Definition (FnConstruct fn) \<Rightarrow>
          (if defaultsFunction st = None then (Inr fn, st)
           else (Inl (ConflictingConfiguration ident), st))
      | _ \<Rightarrow> provide P (CreateFunction scope ident input (defaultsFunction st)) st)"

text \<open>\<^verbatim>\<open>fn.attachPermissions(permissions)\<close>, recorded.\<close>

definition fnAttachPermissions :: "handle \<Rightarrow> permissions \<Rightarrow> api \<Rightarrow> api" where
  "fnAttachPermissions fn permissions st = st\<lparr>attached := attached st @ [(fn, permissions)]\<rparr>"

text \<open>The permissions a function has been given, in the order of the calls.\<close>

definition grantsOf :: "api \<Rightarrow> handle \<Rightarrow> permissions list" where
  "grantsOf st fn = map snd (filter (\<lambda>entry. fst entry = fn) (attached st))"

subsection \<open>Mapping templates\<close>

text \<open>\<^verbatim>\<open>buildMappingTemplate\<close> (lines 866-880). A non-empty string is truthy.\<close>

definition buildMappingTemplate ::
  "provider \<Rightarrow> mapping_template option \<Rightarrow> error + template option" where
  "buildMappingTemplate P mapping =
     (case mapping of
        None \<Rightarrow> Inr None
      | Some m \<Rightarrow>
          (case mtFile m of
             None \<Rightarrow> Inr (Some (StringTemplate (mtInline m)))
           | Some f \<Rightarrow>
               (if f = [] then Inr (Some (StringTemplate (mtInline m)))
                else (case readFile P f of
                        None \<Rightarrow> Inl (TemplateNotFound f)
                      | Some content \<Rightarrow> Inr (Some (FileTemplate f content))))))"

subsection \<open>Data sources\<close>

text \<open>
  The two ways \<^verbatim>\<open>addDataSource\<close> realizes a data source: with a function,
  created first under the id \<^verbatim>\<open>Lambda_<key>\<close> (lines 646-656 and 714-721),
  or without one (lines 664-709). Both return the data source and the
  function, if any.
\<close>

definition lambdaDataSource ::
  "provider \<Rightarrow> scope \<Rightarrow> string \<Rightarrow> fn_input \<Rightarrow> string option \<Rightarrow> string option \<Rightarrow> api \<Rightarrow>
     (error + data_source \<times> handle option) \<times> api" where
  "lambdaDataSource P scope key input name description st =
     (case fromDefinition P scope (''Lambda_'' @ key) input st of
        (Inl e, st1) \<Rightarrow> (Inl e, st1)
      | (Inr lambda, st1) \<Rightarrow>
          (case provide P (CreateDataSource key (LambdaBacking lambda) name description) st1 of
             (Inl e, st2) \<Rightarrow> (Inl e, st2)
           | (Inr h, st2) \<Rightarrow>
               (Inr (\<lparr>dsHandle = h, dsKey = key, dsBacking = LambdaBacking lambda,
                       dsName = name, dsDescription = description\<rparr>, Some lambda), st2)))"

definition plainDataSource ::
  "provider \<Rightarrow> string \<Rightarrow> backing \<Rightarrow> string option \<Rightarrow> string option \<Rightarrow> api \<Rightarrow>
     (error + data_source \<times> handle option) \<times> api" where
  "plainDataSource P key b name description st =
     (case provide P (CreateDataSource key b name description) st of
        (Inl e, st1) \<Rightarrow> (Inl e, st1)
      | (Inr h, st1) \<Rightarrow>
          (Inr (\<lparr>dsHandle = h, dsKey = key, dsBacking = b,
                  dsName = name, dsDescription = description\<rparr>, None), st1))"

text \<open>
  The chain of tests of \<^verbatim>\<open>addDataSource\<close> (lines 643-722), first match
  first: a truthy \<^verbatim>\<open>function\<close>, a table, an RDS cluster, a truthy
  \<^verbatim>\<open>endpoint\<close>; whatever is left is handed to \<^verbatim>\<open>Fn.fromDefinition\<close> as an
  inline function definition.
\<close>

fun realizeDataSource ::
  "provider \<Rightarrow> scope \<Rightarrow> string \<Rightarrow> data_source_value \<Rightarrow> api \<Rightarrow>
     (error + data_source \<times> handle option) \<times> api" where
  "realizeDataSource P scope key (DsLambda name description fn) st =
     (if fn = Handler [] then
        lambdaDataSource P scope key (DataSourceObject (DsLambda name description fn)) None None st
      else lambdaDataSource P scope key (Definition fn) name description st)"
| "realizeDataSource P scope key (DsDynamoDb name description table cdkTable) st =
     (case table of
        Some t \<Rightarrow> plainDataSource P key (DynamoDbBacking t) name description st
      | None \<Rightarrow>
          (case cdkTable of
             Some t \<Rightarrow> plainDataSource P key (DynamoDbBacking t) name description st
           | None \<Rightarrow>
               lambdaDataSource P scope key
                 (DataSourceObject (DsDynamoDb name description table cdkTable)) None None st))"
| "realizeDataSource P scope key (DsRds name description rds databaseName cdk) st =
     (case rds of
        Some r \<Rightarrow>
          plainDataSource P key
            (RdsBacking (rdsCluster r) (rdsSecret r)
               (Some (case databaseName of
                        None \<Rightarrow> rdsDefaultDatabaseName r
                      | Some d \<Rightarrow> if d = [] then rdsDefaultDatabaseName r else d)))
            name description st
      | None \<Rightarrow>
          (case cdk of
             Some c \<Rightarrow>
               plainDataSource P key
                 (RdsBacking (cdkServerlessCluster c) (cdkSecretStore c) (cdkDatabaseName c))
                 name description st
           | None \<Rightarrow>
               lambdaDataSource P scope key
                 (DataSourceObject (DsRds name description rds databaseName cdk)) None None st))"
| "realizeDataSource P scope key (DsHttp name description endpoint) st =
     (if endpoint = [] then
        lambdaDataSource P scope key (DataSourceObject (DsHttp name description endpoint))
          None None st
      else plainDataSource P key (HttpBacking endpoint) name description st)"
| "realizeDataSource P scope key (DsHandler handler) st =
     lambdaDataSource P scope key (Definition (Handler handler)) None None st"
| "realizeDataSource P scope key (DsFn fn) st =
     lambdaDataSource P scope key (Definition (FnConstruct fn)) None None st"

text \<open>
  \<^verbatim>\<open>this.dataSourcesByDsKey[key] = dataSource\<close> and
  \<^verbatim>\<open>this.functionsByDsKey[key] = lambda\<close>.
\<close>

definition setDataSource :: "string \<Rightarrow> data_source \<Rightarrow> api \<Rightarrow> api" where
  "setDataSource key dataSource st =
     (if key = ''__proto__'' then st\<lparr>dataSourcesPrototype := Some dataSource\<rparr>
      else st\<lparr>dataSourcesByDsKey := AList.update key dataSource (dataSourcesByDsKey st)\<rparr>)"

definition setFunction :: "string \<Rightarrow> handle \<Rightarrow> api \<Rightarrow> api" where
  "setFunction key lambda st =
     (if key = ''__proto__'' then st\<lparr>functionsPrototype := Some lambda\<rparr>
      else st\<lparr>functionsByDsKey := AList.update key lambda (functionsByDsKey st)\<rparr>)"

text \<open>
  \<^verbatim>\<open>addDataSource\<close> (lines 630-729): realize, then write the registries
  (lines 723-726), with no test for a key that is already there.
\<close>

definition addDataSource ::
  "provider \<Rightarrow> scope \<Rightarrow> string \<Rightarrow> data_source_value \<Rightarrow> api \<Rightarrow> (error + handle option) \<times> api" where
  "addDataSource P scope key dsValue st =
     (case realizeDataSource P scope key dsValue st of
        (Inl e, st1) \<Rightarrow> (Inl e, st1)
      | (Inr (dataSource, lambda), st1) \<Rightarrow>
          (let st2 = setDataSource key dataSource st1;
               st3 = (case lambda of
                        None \<Rightarrow> st2
                      | Some fn \<Rightarrow> setFunction key fn st2)
           in (Inr lambda, st3)))"

subsection \<open>Resolvers\<close>

text \<open>
  The resolver key after normalization (lines 739-747): exactly two parts
  when split at single spaces, the second not empty.
\<close>

definition resolverKeyParts :: "string \<Rightarrow> error + string \<times> string" where
  "resolverKeyParts resKey =
     (case splitSpace resKey of
        [typeName, fieldName] \<Rightarrow>
          (if fieldName = [] then Inl (InvalidResolverField resKey)
           else Inr (typeName, fieldName))
      | _ \<Rightarrow> Inl (InvalidResolverKey resKey))"

text \<open>
  The \<^verbatim>\<open>resolverProps\<close> of a props object (lines 787-795 and 804-812): the
  request template is built first, then the response template, and
  \<^verbatim>\<open>cdk.resolver\<close> is spread over both.
\<close>

definition emptyConfig :: resolver_config where
  "emptyConfig = \<lparr>requestMappingTemplate = None, responseMappingTemplate = None, otherConfig = None\<rparr>"

definition buildResolverProps :: "provider \<Rightarrow> resolver_props \<Rightarrow> error + resolver_config" where
  "buildResolverProps P props =
     (case buildMappingTemplate P (rpRequestMapping props) of
        Inl e \<Rightarrow> Inl e
      | Inr request \<Rightarrow>
          (case buildMappingTemplate P (rpResponseMapping props) of
             Inl e \<Rightarrow> Inl e
           | Inr response \<Rightarrow>
               (case rpCdkResolver props of
                  None \<Rightarrow>
                    Inr \<lparr>requestMappingTemplate = request, responseMappingTemplate = response,
                         otherConfig = None\<rparr>
                | Some c \<Rightarrow>
                    Inr \<lparr>requestMappingTemplate =
                           (case cdkRequestMappingTemplate c of None \<Rightarrow> request | Some t \<Rightarrow> Some t),
                         responseMappingTemplate =
                           (case cdkResponseMappingTemplate c of None \<Rightarrow> response | Some t \<Rightarrow> Some t),
                         otherConfig = Some (cdkOther c)\<rparr>)))"

text \<open>
  What the chain of tests of \<^verbatim>\<open>addResolver\<close> leaves in its four local
  variables: \<^verbatim>\<open>lambda\<close>, \<^verbatim>\<open>dataSource\<close>, \<^verbatim>\<open>dataSourceKey\<close> and
  \<^verbatim>\<open>resolverProps\<close>.
\<close>

record binding =
  bLambda :: "handle option"
  bDataSource :: "data_source property"
  bDataSourceKey :: string
  bResolverProps :: resolver_config

text \<open>
  The function of a resolver (lines 775-786 and 817-828): created under the
  id \<^verbatim>\<open>Lambda_<type>_<field>\<close>, with a data source under the derived key.
\<close>

definition lambdaResolver ::
  "provider \<Rightarrow> scope \<Rightarrow> string \<Rightarrow> string \<Rightarrow> fn_input \<Rightarrow> api \<Rightarrow>
     (error + handle \<times> data_source) \<times> api" where
  "lambdaResolver P scope typeName fieldName input st =
     (case fromDefinition P scope (''Lambda_'' @ typeName @ ''_'' @ fieldName) input st of
        (Inl e, st1) \<Rightarrow> (Inl e, st1)
      | (Inr lambda, st1) \<Rightarrow>
          (let dataSourceKey = buildDataSourceKey typeName fieldName in
           case provide P (CreateDataSource dataSourceKey (LambdaBacking lambda) None None) st1 of
             (Inl e, st2) \<Rightarrow> (Inl e, st2)
           | (Inr h, st2) \<Rightarrow>
               (Inr (lambda, \<lparr>dsHandle = h, dsKey = dataSourceKey, dsBacking = LambdaBacking lambda,
                              dsName = None, dsDescription = None\<rparr>), st2)))"

text \<open>
  The chain of tests of \<^verbatim>\<open>addResolver\<close> (lines 757-830), first match
  first: a string that is among the \<^verbatim>\<open>Object.keys\<close> of
  \<^verbatim>\<open>dataSourcesByDsKey\<close>; a string without a dot; props with \<^verbatim>\<open>function\<close>;
  props with \<^verbatim>\<open>dataSource\<close>, which is read as a property of
  \<^verbatim>\<open>dataSourcesByDsKey\<close> without such a test (line 803); anything else is an
  inline function definition.
\<close>

fun bindResolver ::
  "provider \<Rightarrow> scope \<Rightarrow> string \<Rightarrow> string \<Rightarrow> string \<Rightarrow> resolver_value \<Rightarrow> api \<Rightarrow>
     (error + binding) \<times> api" where
  "bindResolver P scope resKey typeName fieldName (ResString s) st =
     (if s \<in> set (map fst (dataSourcesByDsKey st)) then
        (Inr \<lparr>bLambda = None,
              bDataSource = getProperty (dataSourcesByDsKey st) (dataSourcesPrototype st) s,
              bDataSourceKey = s, bResolverProps = emptyConfig\<rparr>, st)
      else if CHR ''.'' \<notin> set s then (Inl (UnknownDataSource resKey s), st)
      else
        (case lambdaResolver P scope typeName fieldName (Definition (Handler s)) st of
           (Inl e, st1) \<Rightarrow> (Inl e, st1)
         | (Inr (lambda, dataSource), st1) \<Rightarrow>
             (Inr \<lparr>bLambda = Some lambda, bDataSource = Value dataSource,
                   bDataSourceKey = buildDataSourceKey typeName fieldName,
                   bResolverProps = emptyConfig\<rparr>, st1)))"
| "bindResolver P scope resKey typeName fieldName (ResFn fn) st =
     (case lambdaResolver P scope typeName fieldName (Definition (FnConstruct fn)) st of
        (Inl e, st1) \<Rightarrow> (Inl e, st1)
      | (Inr (lambda, dataSource), st1) \<Rightarrow>
          (Inr \<lparr>bLambda = Some lambda, bDataSource = Value dataSource,
                bDataSourceKey = buildDataSourceKey typeName fieldName,
                bResolverProps = emptyConfig\<rparr>, st1))"
| "bindResolver P scope resKey typeName fieldName (ResProps props) st =
     (case rpFunction props of
        Some fn \<Rightarrow>
          (case lambdaResolver P scope typeName fieldName (Definition fn) st of
             (Inl e, st1) \<Rightarrow> (Inl e, st1)
           | (Inr (lambda, dataSource), st1) \<Rightarrow>
               (case buildResolverProps P props of
                  Inl e \<Rightarrow> (Inl e, st1)
                | Inr config \<Rightarrow>
                    (Inr \<lparr>bLambda = Some lambda, bDataSource = Value dataSource,
                          bDataSourceKey = buildDataSourceKey typeName fieldName,
                          bResolverProps = config\<rparr>, st1)))
      | None \<Rightarrow>
          (case rpDataSource props of
             Some dataSourceKey \<Rightarrow>
               (case buildResolverProps P props of
                  Inl e \<Rightarrow> (Inl e, st)
                | Inr config \<Rightarrow>
                    (Inr \<lparr>bLambda = None,
                          bDataSource =
                            getProperty (dataSourcesByDsKey st) (dataSourcesPrototype st)
                              dataSourceKey,
                          bDataSourceKey = dataSourceKey, bResolverProps = config\<rparr>, st))
           | None \<Rightarrow>
               (case lambdaResolver P scope typeName fieldName (ResolverObject props) st of
                  (Inl e, st1) \<Rightarrow> (Inl e, st1)
                | (Inr (lambda, dataSource), st1) \<Rightarrow>
                    (Inr \<lparr>bLambda = Some lambda, bDataSource = Value dataSource,
                          bDataSourceKey = buildDataSourceKey typeName fieldName,
                          bResolverProps = emptyConfig\<rparr>, st1))))"

text \<open>
  The writes of \<^verbatim>\<open>addResolver\<close> before the resolver is created (lines
  832-837): the new data source and function, if a function was created (the
  data source is then the one created with it), and the key of the data source
  under the resolver key.
\<close>

definition storeBinding :: "string \<Rightarrow> binding \<Rightarrow> api \<Rightarrow> api" where
  "storeBinding resKey b st =
     (let st1 = (case bLambda b of
                   None \<Rightarrow> st
                 | Some lambda \<Rightarrow>
                     setFunction (bDataSourceKey b) lambda
                       (case bDataSource b of
                          Value dataSource \<Rightarrow> setDataSource (bDataSourceKey b) dataSource st
                        | _ \<Rightarrow> st))
      in st1\<lparr>dsKeysByResKey := AList.update resKey (bDataSourceKey b) (dsKeysByResKey st1)\<rparr>)"

text \<open>
  \<^verbatim>\<open>addResolver\<close> (lines 731-851): normalize and split the key, bind, write
  the registries, create the resolver (lines 842-847) and record it (line
  848). It returns the function it created, if any.
\<close>

definition addResolver ::
  "provider \<Rightarrow> scope \<Rightarrow> string \<Rightarrow> resolver_value \<Rightarrow> api \<Rightarrow> (error + handle option) \<times> api" where
  "addResolver P scope key resValue st =
     (let resKey = normalizeResolverKey key in
      case resolverKeyParts resKey of
        Inl e \<Rightarrow> (Inl e, st)
      | Inr (typeName, fieldName) \<Rightarrow>
          (case bindResolver P scope resKey typeName fieldName resValue st of
             (Inl e, st1) \<Rightarrow> (Inl e, st1)
           | (Inr b, st1) \<Rightarrow>
               (let st2 = storeBinding resKey b st1 in
                case provide P
                       (CreateResolver typeName fieldName (bDataSource b) (bResolverProps b)) st2 of
                  (Inl e, st3) \<Rightarrow> (Inl e, st3)
                | (Inr h, st3) \<Rightarrow>
                    (Inr (bLambda b),
                     st3\<lparr>resolversByResKey :=
                           AList.update resKey
                             \<lparr>resHandle = h, resTypeName = typeName, resFieldName = fieldName,
                              resDataSource = bDataSource b, resConfig = bResolverProps b\<rparr>
                             (resolversByResKey st3)\<rparr>))))"

subsection \<open>Batches and permissions\<close>

text \<open>
  The replay after each entry of a batch (lines 454-459 and 483-488): if a
  function came back, every retained permission is attached to it, in the
  order of the list.
\<close>

definition replayPermissions :: "handle option \<Rightarrow> api \<Rightarrow> api" where
  "replayPermissions lambda st =
     (case lambda of
        None \<Rightarrow> st
      | Some fn \<Rightarrow>
          foldl (\<lambda>s permissions. fnAttachPermissions fn permissions s) st
            (permissionsAttachedForAllFunctions st))"

text \<open>
  \<^verbatim>\<open>addDataSources\<close> (lines 439-461) and \<^verbatim>\<open>addResolvers\<close> (lines 473-490).
  The batch is the object's entries in the order of \<^verbatim>\<open>Object.keys\<close>; a throw
  ends the loop and leaves the method, here with \<^const>\<open>Some\<close> error.
\<close>

fun addDataSources ::
  "provider \<Rightarrow> scope \<Rightarrow> (string \<times> data_source_value) list \<Rightarrow> api \<Rightarrow> error option \<times> api" where
  "addDataSources P scope [] st = (None, st)"
| "addDataSources P scope ((key, dsValue) # rest) st =
     (case addDataSource P scope key dsValue st of
        (Inl e, st1) \<Rightarrow> (Some e, st1)
      | (Inr fn, st1) \<Rightarrow> addDataSources P scope rest (replayPermissions fn st1))"

fun addResolvers ::
  "provider \<Rightarrow> scope \<Rightarrow> (string \<times> resolver_value) list \<Rightarrow> api \<Rightarrow> error option \<times> api" where
  "addResolvers P scope [] st = (None, st)"
| "addResolvers P scope ((key, resValue) # rest) st =
     (case addResolver P scope key resValue st of
        (Inl e, st1) \<Rightarrow> (Some e, st1)
      | (Inr fn, st1) \<Rightarrow> addResolvers P scope rest (replayPermissions fn st1))"

text \<open>
  \<^verbatim>\<open>attachPermissions\<close> (lines 551-556): attach to every value of
  \<^verbatim>\<open>functionsByDsKey\<close>, then retain.
\<close>

definition attachPermissions :: "permissions \<Rightarrow> api \<Rightarrow> api" where
  "attachPermissions permissions st =
     (let st1 = foldl (\<lambda>s fn. fnAttachPermissions fn permissions s) st
                  (map snd (functionsByDsKey st))
      in st1\<lparr>permissionsAttachedForAllFunctions :=
               permissionsAttachedForAllFunctions st1 @ [permissions]\<rparr>)"

subsection \<open>Lookups\<close>

text \<open>
  \<^verbatim>\<open>this.dsKeysByResKey[resKey]\<close> used as a property name (lines 505-506
  and 523-524): the key the resolver key is bound to, the string
  \<^verbatim>\<open>"undefined"\<close> when there is none, and the text of the member when the
  resolver key is a name of \<^verbatim>\<open>Object.prototype\<close>.
\<close>

definition boundKey :: "api \<Rightarrow> string \<Rightarrow> string" where
  "boundKey st resKey =
     (case getProperty (dsKeysByResKey st) None resKey of
        Value dataSourceKey \<Rightarrow> dataSourceKey
      | Inherited name \<Rightarrow> memberString name
      | _ \<Rightarrow> ''undefined'')"

text \<open>\<^verbatim>\<open>getFunction\<close> (lines 500-509).\<close>

definition getFunction :: "provider \<Rightarrow> api \<Rightarrow> string \<Rightarrow> handle property" where
  "getFunction P st key =
     (let fn = getProperty (functionsByDsKey st) (functionsPrototype st) key in
      if truthy (hasMember P) fn then fn
      else
        (let resKey = normalizeResolverKey key;
             dsKey = boundKey st resKey
         in getProperty (functionsByDsKey st) (functionsPrototype st) dsKey))"

text \<open>\<^verbatim>\<open>getDataSource\<close> (lines 518-527).\<close>

definition getDataSource :: "provider \<Rightarrow> api \<Rightarrow> string \<Rightarrow> data_source property" where
  "getDataSource P st key =
     (let ds = getProperty (dataSourcesByDsKey st) (dataSourcesPrototype st) key in
      if truthy (\<lambda>d. hasMember P (dsHandle d)) ds then ds
      else
        (let resKey = normalizeResolverKey key;
             dsKey = boundKey st resKey
         in getProperty (dataSourcesByDsKey st) (dataSourcesPrototype st) dsKey))"

text \<open>\<^verbatim>\<open>getResolver\<close> (lines 537-540).\<close>

definition getResolver :: "api \<Rightarrow> string \<Rightarrow> resolver property" where
  "getResolver st key = getProperty (resolversByResKey st) None (normalizeResolverKey key)"

subsection \<open>Construction\<close>

text \<open>
  \<^verbatim>\<open>AppSyncApiProps\<close> as far as this file reads it. The schema and the
  settings of \<^verbatim>\<open>cdk.graphqlApi\<close> go to the provider with the request for the
  API; an API that comes as a construct is its handle.
\<close>

record api_props =
  propsDataSources :: "(string \<times> data_source_value) list"
  propsResolvers :: "(string \<times> resolver_value) list"
  propsDefaultsFunction :: "function_props option"
  propsGraphqlApi :: "handle option"

text \<open>The object at the start of the constructor (lines 379-385), in a new world.\<close>

definition emptyApi :: "api_props \<Rightarrow> api" where
  "emptyApi props =
     \<lparr>functionsByDsKey = [], functionsPrototype = None,
      dataSourcesByDsKey = [], dataSourcesPrototype = None, dsKeysByResKey = [],
      resolversByResKey = [], permissionsAttachedForAllFunctions = [],
      defaultsFunction = propsDefaultsFunction props, graphqlApi = None,
      accepted = [], nextHandle = 0, attached = []\<rparr>"

text \<open>\<^verbatim>\<open>createGraphApi\<close> (lines 593-628).\<close>

definition createGraphApi :: "provider \<Rightarrow> string \<Rightarrow> api_props \<Rightarrow> api \<Rightarrow> error option \<times> api" where
  "createGraphApi P ident props st =
     (case propsGraphqlApi props of
        Some h \<Rightarrow> (None, st\<lparr>graphqlApi := Some h\<rparr>)
      | None \<Rightarrow>
          (case provide P (CreateApi ident) st of
             (Inl e, st1) \<Rightarrow> (Some e, st1)
           | (Inr h, st1) \<Rightarrow> (None, st1\<lparr>graphqlApi := Some h\<rparr>)))"

text \<open>
  The two loops of the constructor (lines 390-401): the entries are added
  with the construct itself as the scope, and nothing is replayed.
\<close>

fun configureDataSources ::
  "provider \<Rightarrow> scope \<Rightarrow> (string \<times> data_source_value) list \<Rightarrow> api \<Rightarrow> error option \<times> api" where
  "configureDataSources P scope [] st = (None, st)"
| "configureDataSources P scope ((key, dsValue) # rest) st =
     (case addDataSource P scope key dsValue st of
        (Inl e, st1) \<Rightarrow> (Some e, st1)
      | (Inr fn, st1) \<Rightarrow> configureDataSources P scope rest st1)"

fun configureResolvers ::
  "provider \<Rightarrow> scope \<Rightarrow> (string \<times> resolver_value) list \<Rightarrow> api \<Rightarrow> error option \<times> api" where
  "configureResolvers P scope [] st = (None, st)"
| "configureResolvers P scope ((key, resValue) # rest) st =
     (case addResolver P scope key resValue st of
        (Inl e, st1) \<Rightarrow> (Some e, st1)
      | (Inr fn, st1) \<Rightarrow> configureResolvers P scope rest st1)"

text \<open>
  The constructor (lines 376-402). A throw leaves no object; the state at the
  throw is returned with the error.
\<close>

definition construct :: "provider \<Rightarrow> scope \<Rightarrow> string \<Rightarrow> api_props \<Rightarrow> error option \<times> api" where
  "construct P scope ident props =
     (case createGraphApi P ident props (emptyApi props) of
        (Some e, st1) \<Rightarrow> (Some e, st1)
      | (None, st1) \<Rightarrow>
          (case configureDataSources P (scope @ ''/'' @ ident) (propsDataSources props) st1 of
             (Some e, st2) \<Rightarrow> (Some e, st2)
           | (None, st2) \<Rightarrow>
               configureResolvers P (scope @ ''/'' @ ident) (propsResolvers props) st2))"

subsection \<open>Sequences of calls\<close>

text \<open>
  The calls a user makes on one construct after it is built, with the outcome
  of each: \<^const>\<open>None\<close>, or the error it threw. The caller may catch an error
  and go on, so the sequence runs to its end.
\<close>

datatype call =
    AttachPermissions permissions
  | AddDataSources scope "(string \<times> data_source_value) list"
  | AddResolvers scope "(string \<times> resolver_value) list"

fun runCalls :: "provider \<Rightarrow> call list \<Rightarrow> api \<Rightarrow> error option list \<times> api" where
  "runCalls P [] st = ([], st)"
| "runCalls P (AttachPermissions permissions # rest) st =
     (case runCalls P rest (attachPermissions permissions st) of
        (outcomes, st') \<Rightarrow> (None # outcomes, st'))"
| "runCalls P (AddDataSources scope batch # rest) st =
     (case addDataSources P scope batch st of
        (outcome, st1) \<Rightarrow>
          (case runCalls P rest st1 of
             (outcomes, st') \<Rightarrow> (outcome # outcomes, st')))"
| "runCalls P (AddResolvers scope batch # rest) st =
     (case addResolvers P scope batch st of
        (outcome, st1) \<Rightarrow>
          (case runCalls P rest st1 of
             (outcomes, st') \<Rightarrow> (outcome # outcomes, st')))"

text \<open>The permissions a sequence of calls attaches, in their order.\<close>

fun attachedBy :: "call list \<Rightarrow> permissions list" where
  "attachedBy [] = []"
| "attachedBy (AttachPermissions permissions # rest) = permissions # attachedBy rest"
| "attachedBy (c # rest) = attachedBy rest"

text \<open>
  The keys under which a refused entry of \<^verbatim>\<open>addResolvers\<close> has left a
  function, read off the outcomes: where the provider refused a resolver
  whose data source has the key derived from the type and the field, as the
  data source has that the entry creates for its function.
\<close>

fun refusedKeys :: "error option list \<Rightarrow> string list" where
  "refusedKeys [] = []"
| "refusedKeys (Some (ProviderError (CreateResolver typeName fieldName (Value dataSource) config))
                # rest) =
     (if dsKey dataSource = buildDataSourceKey typeName fieldName
      then dsKey dataSource # refusedKeys rest
      else refusedKeys rest)"
| "refusedKeys (outcome # rest) = refusedKeys rest"

subsection \<open>Two providers\<close>

text \<open>A provider that accepts every request and has one file.\<close>

definition acceptAll :: provider where
  "acceptAll =
     \<lparr>accepts = (\<lambda>history r. True),
      readFile = (\<lambda>path. if path = ''request.vtl'' then Some ''{}'' else None),
      hasMember = (\<lambda>h name. name \<in> set objectPrototype)\<rparr>"

text \<open>
  A provider that refuses to build a construct twice: a function is named by
  its scope and id, a data source by its key, a resolver by its type and
  field. It also refuses a resolver whose data source is not a data source
  but a member of a prototype. It has the same file.
\<close>

fun constructName :: "request \<Rightarrow> string \<times> string" where
  "constructName (CreateApi ident) = (''Api'', ident)"
| "constructName (CreateFunction scope ident input defaults) = (scope, ident)"
| "constructName (CreateDataSource key b name description) = (''DataSource'', key)"
| "constructName (CreateResolver typeName fieldName dataSource config) =
     (''Resolver'', typeName @ '' '' @ fieldName)"

fun wellFormed :: "request \<Rightarrow> bool" where
  "wellFormed (CreateResolver typeName fieldName (Inherited name) config) = False"
| "wellFormed (CreateResolver typeName fieldName (MemberOf v name) config) = False"
| "wellFormed r = True"

definition uniqueNames :: provider where
  "uniqueNames =
     \<lparr>accepts = (\<lambda>history r. constructName r \<notin> set (map constructName history) \<and> wellFormed r),
      readFile = readFile acceptAll,
      hasMember = hasMember acceptAll\<rparr>"

subsection \<open>Notions for the statements\<close>

text \<open>The four registries of a construct, with the two prototypes.\<close>

definition registries ::
  "api \<Rightarrow> ((string \<times> handle) list \<times> handle option) \<times>
     ((string \<times> data_source) list \<times> data_source option) \<times>
     (string \<times> string) list \<times> (string \<times> resolver) list" where
  "registries st =
     ((functionsByDsKey st, functionsPrototype st),
      (dataSourcesByDsKey st, dataSourcesPrototype st),
      dsKeysByResKey st, resolversByResKey st)"

text \<open>Everything a request to the provider leaves alone.\<close>

definition outsideProvider ::
  "api \<Rightarrow> (((string \<times> handle) list \<times> handle option) \<times>
     ((string \<times> data_source) list \<times> data_source option) \<times>
     (string \<times> string) list \<times> (string \<times> resolver) list) \<times>
     permissions list \<times> function_props option \<times> handle option \<times> (handle \<times> permissions) list" where
  "outsideProvider st =
     (registries st, permissionsAttachedForAllFunctions st, defaultsFunction st,
      graphqlApi st, attached st)"

text \<open>No key of a registry of the first state is missing in the second.\<close>

definition retainsKeys :: "api \<Rightarrow> api \<Rightarrow> bool" where
  "retainsKeys st st' \<longleftrightarrow>
     set (map fst (functionsByDsKey st)) \<subseteq> set (map fst (functionsByDsKey st')) \<and>
     set (map fst (dataSourcesByDsKey st)) \<subseteq> set (map fst (dataSourcesByDsKey st')) \<and>
     set (map fst (dsKeysByResKey st)) \<subseteq> set (map fst (dsKeysByResKey st')) \<and>
     set (map fst (resolversByResKey st)) \<subseteq> set (map fst (resolversByResKey st'))"

text \<open>
  The data-source key that the entry of a resolver key writes when it creates
  a function; an invalid key has none.
\<close>

definition derivedKey :: "string \<Rightarrow> string option" where
  "derivedKey key =
     (case resolverKeyParts (normalizeResolverKey key) of
        Inl e \<Rightarrow> None
      | Inr (typeName, fieldName) \<Rightarrow> Some (buildDataSourceKey typeName fieldName))"

text \<open>
  Every function registered under a key outside the given ones holds the
  retained permissions, in their order, and no function holds a permission
  that is not retained.
\<close>

definition grantsExcept :: "string list \<Rightarrow> api \<Rightarrow> bool" where
  "grantsExcept exempt st \<longleftrightarrow>
     list_all (\<lambda>entry. fst entry \<in> set exempt \<or>
                 subseq (permissionsAttachedForAllFunctions st) (grantsOf st (snd entry)))
       (functionsByDsKey st) \<and>
     list_all (\<lambda>entry. snd entry \<in> set (permissionsAttachedForAllFunctions st)) (attached st)"



text \<open>Props without entries, and the documented example (lines 343-355).\<close>

definition noProps :: api_props where
  "noProps =
     \<lparr>propsDataSources = [], propsResolvers = [], propsDefaultsFunction = None,
      propsGraphqlApi = None\<rparr>"

definition notesProps :: api_props where
  "notesProps =
     \<lparr>propsDataSources = [(''notesDS'', DsHandler ''src/notes.main'')],
      propsResolvers =
        [(''Query    listNotes'', ResString ''notesDS''),
         (''Mutation createNote'', ResString ''notesDS'')],
      propsDefaultsFunction = None, propsGraphqlApi = None\<rparr>"

text \<open>A construct with one data source whose key has a dot.\<close>

definition billingProps :: api_props where
  "billingProps =
     noProps\<lparr>propsDataSources := [(''billing.main'', DsHandler ''src/billing.main'')]\<rparr>"

definition billingApi :: api where
  "billingApi = snd (construct uniqueNames ''stack'' ''Api'' billingProps)"

text \<open>The construct without entries, and the documented example built.\<close>

definition plainApi :: api where
  "plainApi = snd (construct uniqueNames ''stack'' ''Api'' noProps)"

definition notesApi :: api where
  "notesApi = snd (construct uniqueNames ''stack'' ''Api'' notesProps)"

text \<open>A construct with a data source whose key reads like a resolver key.\<close>

definition collisionProps :: api_props where
  "collisionProps =
     noProps\<lparr>propsDataSources :=
               [(''notesDS'', DsHandler ''src/notes.main''),
                (''Query listNotes'', DsHandler ''src/other.main'')],
             propsResolvers := [(''Query listNotes'', ResString ''notesDS'')]\<rparr>"

definition collisionApi :: api where
  "collisionApi = snd (construct uniqueNames ''stack'' ''Api'' collisionProps)"

text \<open>Two data sources and one resolver.\<close>

definition twoSourcesProps :: api_props where
  "twoSourcesProps =
     noProps\<lparr>propsDataSources :=
               [(''dsA'', DsHandler ''src/a.main''), (''dsB'', DsHandler ''src/b.main'')],
             propsResolvers := [(''Query a'', ResString ''dsA'')]\<rparr>"

definition twoSourcesApi :: api where
  "twoSourcesApi = snd (construct uniqueNames ''stack'' ''Api'' twoSourcesProps)"

text \<open>
  Resolver props with both a function and a data source, with a data source
  alone, and with a data source whose name every object inherits.
\<close>

definition functionAndDataSource :: resolver_props where
  "functionAndDataSource =
     \<lparr>rpDataSource = Some ''notesDS'', rpFunction = Some (Handler ''src/get.main''),
      rpRequestMapping = None, rpResponseMapping = None, rpCdkResolver = None\<rparr>"

definition dataSourceOnly :: resolver_props where
  "dataSourceOnly =
     \<lparr>rpDataSource = Some ''notesDS'', rpFunction = None,
      rpRequestMapping = Some \<lparr>mtFile = Some ''request.vtl'', mtInline = None\<rparr>,
      rpResponseMapping = Some \<lparr>mtFile = None, mtInline = Some ''$util.toJson($ctx.result)''\<rparr>,
      rpCdkResolver = None\<rparr>"

definition inheritedDataSource :: resolver_props where
  "inheritedDataSource =
     \<lparr>rpDataSource = Some ''constructor'', rpFunction = None,
      rpRequestMapping = None, rpResponseMapping = None, rpCdkResolver = None\<rparr>"

section \<open>The normalizer\<close>

lemma splitWhitespace_not_Nil: "splitWhitespace x \<noteq> []"
  by (induction x rule: splitWhitespace.induct) (auto split: list.splits)

lemma joinSpace_Cons: "ws \<noteq> [] \<Longrightarrow> joinSpace (w # ws) = w @ CHR '' '' # joinSpace ws"
  by (cases ws) auto

lemma normalizeResolverKey_Nil: "normalizeResolverKey [] = []"
  by (simp add: normalizeResolverKey_def)

text \<open>The normalizer read from left to right: a run of whitespace becomes one space.\<close>

lemma normalizeResolverKey_Cons:
  "normalizeResolverKey (c # cs) =
     (if isWhitespace c then CHR '' '' # normalizeResolverKey (dropWhile isWhitespace cs)
      else c # normalizeResolverKey cs)"
proof (cases "isWhitespace c")
  case True
  then show ?thesis
    by (simp add: normalizeResolverKey_def joinSpace_Cons splitWhitespace_not_Nil)
next
  case False
  obtain w ws where s: "splitWhitespace cs = w # ws"
    using splitWhitespace_not_Nil [of cs] by (cases "splitWhitespace cs") auto
  show ?thesis
    using False s by (cases ws) (auto simp: normalizeResolverKey_def)
qed









section \<open>The derived data-source key\<close>

lemma append_sep_inj:
  "c \<notin> set t1 \<Longrightarrow> c \<notin> set t2 \<Longrightarrow> t1 @ c # f1 = t2 @ c # f2 \<Longrightarrow> t1 = t2 \<and> f1 = f2"
proof (induction t1 arbitrary: t2)
  case Nil
  then show ?case by (cases t2) auto
next
  case (Cons a t1)
  then show ?case by (cases t2) auto
qed

lemma append_sep_inj_right:
  assumes "c \<notin> set f1" "c \<notin> set f2" "t1 @ c # f1 = t2 @ c # f2"
  shows "t1 = t2 \<and> f1 = f2"
proof -
  have "rev f1 @ c # rev t1 = rev f2 @ c # rev t2"
    using arg_cong [OF assms(3), of rev] by simp
  then have "rev f1 = rev f2 \<and> rev t1 = rev t2"
    using assms(1,2) by (intro append_sep_inj) auto
  then show ?thesis by simp
qed

text \<open>
  Claim C4, as amended. The derived key is \<^verbatim>\<open>LambdaDS_<type>_<field>\<close>, a
  function of the two names alone, and two different pairs of names get
  different keys when the type names are equal, or when neither type name has
  an underscore, or when neither field name has one.
\<close>

theorem buildDataSourceKey_distinct:
  "buildDataSourceKey typeName fieldName = ''LambdaDS_'' @ typeName @ ''_'' @ fieldName \<and>
   ((t1, f1) \<noteq> (t2, f2) \<and>
    (t1 = t2 \<or> (CHR ''_'' \<notin> set t1 \<and> CHR ''_'' \<notin> set t2) \<or>
     (CHR ''_'' \<notin> set f1 \<and> CHR ''_'' \<notin> set f2)) \<longrightarrow>
      buildDataSourceKey t1 f1 \<noteq> buildDataSourceKey t2 f2)"
proof (intro conjI impI)
  show "buildDataSourceKey typeName fieldName = ''LambdaDS_'' @ typeName @ ''_'' @ fieldName"
    by (simp add: buildDataSourceKey_def)
next
  assume a: "(t1, f1) \<noteq> (t2, f2) \<and>
    (t1 = t2 \<or> (CHR ''_'' \<notin> set t1 \<and> CHR ''_'' \<notin> set t2) \<or>
     (CHR ''_'' \<notin> set f1 \<and> CHR ''_'' \<notin> set f2))"
  show "buildDataSourceKey t1 f1 \<noteq> buildDataSourceKey t2 f2"
  proof
    assume "buildDataSourceKey t1 f1 = buildDataSourceKey t2 f2"
    then have e: "t1 @ CHR ''_'' # f1 = t2 @ CHR ''_'' # f2"
      by (simp add: buildDataSourceKey_def)
    from a consider "t1 = t2" | "CHR ''_'' \<notin> set t1 \<and> CHR ''_'' \<notin> set t2"
      | "CHR ''_'' \<notin> set f1 \<and> CHR ''_'' \<notin> set f2"
      by blast
    then have "t1 = t2 \<and> f1 = f2"
    proof cases
      case 1
      with e show ?thesis by simp
    next
      case 2
      with e show ?thesis by (intro append_sep_inj [of "CHR ''_''"]) auto
    next
      case 3
      with e show ?thesis by (intro append_sep_inj_right [of "CHR ''_''"]) auto
    qed
    with a show False by simp
  qed
qed

theorem buildDataSourceKey_distinct_witness:
  "(''Query'', ''listNotes'') \<noteq> (''Mutation'', ''createNote'') \<and>
   CHR ''_'' \<notin> set ''Query'' \<and> CHR ''_'' \<notin> set ''Mutation'' \<and>
   buildDataSourceKey ''Query'' ''listNotes'' = ''LambdaDS_'' @ ''Query'' @ ''_'' @ ''listNotes'' \<and>
   buildDataSourceKey ''Query'' ''listNotes'' \<noteq> buildDataSourceKey ''Mutation'' ''createNote''"
proof -
  have h: "(''Query'', ''listNotes'') \<noteq> (''Mutation'', ''createNote'') \<and>
           CHR ''_'' \<notin> set ''Query'' \<and> CHR ''_'' \<notin> set ''Mutation''"
    by simp
  note a = buildDataSourceKey_distinct
    [where typeName = "''Query''" and fieldName = "''listNotes''"
       and ?t1.0 = "''Query''" and ?f1.0 = "''listNotes''"
       and ?t2.0 = "''Mutation''" and ?f2.0 = "''createNote''"]
  show ?thesis
    using a h by blast
qed

text \<open>
  Claim C4 as stated says that different pairs always get different keys. The
  pairs \<^verbatim>\<open>(Note_Query, list)\<close> and \<^verbatim>\<open>(Note, Query_list)\<close> get the same key.
\<close>

theorem buildDataSourceKey_collision:
  "(''Note_Query'', ''list'') \<noteq> (''Note'', ''Query_list'') \<and>
   buildDataSourceKey ''Note_Query'' ''list'' = buildDataSourceKey ''Note'' ''Query_list''"
  by (simp add: buildDataSourceKey_def)

section \<open>Mapping templates\<close>

text \<open>
  Claim C8, as amended. Nothing in gives nothing out. A spec with a non-empty
  \<^verbatim>\<open>file\<close> gives the artifact loaded from that file, whether \<^verbatim>\<open>inline\<close> is
  set or not, and fails only when the file cannot be read. Any other spec
  gives the artifact that wraps the value of \<^verbatim>\<open>inline\<close>, also when that value
  is missing. No spec is refused for having both fields or neither.
\<close>

theorem buildMappingTemplate_cases:
  "buildMappingTemplate P None = Inr None \<and>
   (f \<noteq> [] \<and> readFile P f = Some content \<longrightarrow>
      buildMappingTemplate P (Some \<lparr>mtFile = Some f, mtInline = i\<rparr>) =
        Inr (Some (FileTemplate f content))) \<and>
   (f \<noteq> [] \<and> readFile P f = None \<longrightarrow>
      buildMappingTemplate P (Some \<lparr>mtFile = Some f, mtInline = i\<rparr>) = Inl (TemplateNotFound f)) \<and>
   buildMappingTemplate P (Some \<lparr>mtFile = Some [], mtInline = i\<rparr>) =
     Inr (Some (StringTemplate i)) \<and>
   buildMappingTemplate P (Some \<lparr>mtFile = None, mtInline = i\<rparr>) = Inr (Some (StringTemplate i))"
  by (simp add: buildMappingTemplate_def)

theorem buildMappingTemplate_cases_witness:
  "readFile acceptAll ''request.vtl'' = Some ''{}'' \<and>
   readFile acceptAll ''response.vtl'' = None \<and>
   buildMappingTemplate acceptAll None = Inr None \<and>
   buildMappingTemplate acceptAll (Some \<lparr>mtFile = Some ''request.vtl'', mtInline = None\<rparr>) =
     Inr (Some (FileTemplate ''request.vtl'' ''{}'')) \<and>
   buildMappingTemplate acceptAll (Some \<lparr>mtFile = Some ''response.vtl'', mtInline = None\<rparr>) =
     Inl (TemplateNotFound ''response.vtl'') \<and>
   buildMappingTemplate acceptAll (Some \<lparr>mtFile = None, mtInline = None\<rparr>) =
     Inr (Some (StringTemplate None))"
proof -
  have r: "''request.vtl'' \<noteq> [] \<and> readFile acceptAll ''request.vtl'' = Some ''{}''"
    and n: "''response.vtl'' \<noteq> [] \<and> readFile acceptAll ''response.vtl'' = None"
    by (simp_all add: acceptAll_def)
  note a = buildMappingTemplate_cases
    [where P = acceptAll and f = "''request.vtl''" and content = "''{}''" and i = None]
  note b = buildMappingTemplate_cases
    [where P = acceptAll and f = "''response.vtl''" and content = "''{}''" and i = None]
  show ?thesis
    using a b r n by blast
qed

text \<open>
  Claim C8 as stated says that a spec with both fields, or with neither, fails.
  With both, the file wins; with neither, the artifact wraps a missing value.
\<close>

theorem buildMappingTemplate_both_or_neither:
  "buildMappingTemplate acceptAll
     (Some \<lparr>mtFile = Some ''request.vtl'', mtInline = Some ''$util.toJson($ctx.result.items)''\<rparr>) =
     Inr (Some (FileTemplate ''request.vtl'' ''{}'')) \<and>
   buildMappingTemplate acceptAll (Some \<lparr>mtFile = None, mtInline = None\<rparr>) =
     Inr (Some (StringTemplate None))"
  by (simp add: buildMappingTemplate_def acceptAll_def)

section \<open>Requests to the provider\<close>

text \<open>
  A request changes the list of accepted requests and the next handle, and
  nothing else; so do the functions that only make requests.
\<close>

lemma provide_frame: "provide P r st = (res, st') \<Longrightarrow> outsideProvider st' = outsideProvider st"
  by (auto simp: provide_def outsideProvider_def registries_def split: if_splits)

lemma fromDefinition_frame:
  "fromDefinition P scope ident input st = (res, st') \<Longrightarrow> outsideProvider st' = outsideProvider st"
  by (auto simp: fromDefinition_def dest: provide_frame
      split: fn_input.splits function_definition.splits if_splits)

lemma lambdaDataSource_frame:
  "lambdaDataSource P scope key input name description st = (res, st') \<Longrightarrow>
     outsideProvider st' = outsideProvider st"
  by (auto simp: lambdaDataSource_def dest!: provide_frame fromDefinition_frame
      split: prod.splits sum.splits)

lemma plainDataSource_frame:
  "plainDataSource P key b name description st = (res, st') \<Longrightarrow>
     outsideProvider st' = outsideProvider st"
  by (auto simp: plainDataSource_def dest!: provide_frame split: prod.splits sum.splits)

lemma realizeDataSource_frame:
  "realizeDataSource P scope key dsValue st = (res, st') \<Longrightarrow>
     outsideProvider st' = outsideProvider st"
  by (cases dsValue)
     (auto dest: lambdaDataSource_frame plainDataSource_frame split: if_splits option.splits)

lemma lambdaResolver_frame:
  "lambdaResolver P scope typeName fieldName input st = (res, st') \<Longrightarrow>
     outsideProvider st' = outsideProvider st"
  by (auto simp: lambdaResolver_def Let_def dest!: provide_frame fromDefinition_frame
      split: prod.splits sum.splits)

lemma bindResolver_frame:
  "bindResolver P scope resKey typeName fieldName resValue st = (res, st') \<Longrightarrow>
     outsideProvider st' = outsideProvider st"
  by (cases resValue)
     (auto dest: lambdaResolver_frame split: if_splits option.splits prod.splits sum.splits)

lemma outsideProvider_fields:
  "outsideProvider st' = outsideProvider st \<Longrightarrow>
     functionsByDsKey st' = functionsByDsKey st \<and> dataSourcesByDsKey st' = dataSourcesByDsKey st \<and>
     functionsPrototype st' = functionsPrototype st \<and>
     dataSourcesPrototype st' = dataSourcesPrototype st \<and>
     dsKeysByResKey st' = dsKeysByResKey st \<and> resolversByResKey st' = resolversByResKey st \<and>
     permissionsAttachedForAllFunctions st' = permissionsAttachedForAllFunctions st \<and>
     defaultsFunction st' = defaultsFunction st \<and> graphqlApi st' = graphqlApi st \<and>
     attached st' = attached st"
  by (simp add: outsideProvider_def registries_def)

lemma provide_next:
  "provide P r st = (res, st') \<Longrightarrow> nextHandle st \<le> nextHandle st'"
  by (auto simp: provide_def split: if_splits)

lemma provide_Inr:
  "provide P r st = (Inr h, st') \<Longrightarrow>
     h = nextHandle st \<and> nextHandle st' = Suc h \<and> accepted st' = accepted st @ [r]"
  by (auto simp: provide_def split: if_splits)

lemma provide_error: "provide P r st = (Inl e, st') \<Longrightarrow> e = ProviderError r"
  by (auto simp: provide_def split: if_splits)

lemma fromDefinition_next:
  "fromDefinition P scope ident input st = (res, st') \<Longrightarrow> nextHandle st \<le> nextHandle st'"
  by (auto simp: fromDefinition_def dest: provide_next
      split: fn_input.splits function_definition.splits if_splits)

lemma fromDefinition_error:
  "fromDefinition P scope ident input st = (Inl e, st') \<Longrightarrow>
     (\<exists>r. e = ProviderError r) \<or> (\<exists>i. e = ConflictingConfiguration i)"
  by (auto simp: fromDefinition_def dest: provide_error
      split: fn_input.splits function_definition.splits if_splits)


section \<open>Resolver keys\<close>

lemma resolverKeyParts_Inr_iff:
  "resolverKeyParts resKey = Inr (typeName, fieldName) \<longleftrightarrow>
     splitSpace resKey = [typeName, fieldName] \<and> fieldName \<noteq> []"
  by (auto simp: resolverKeyParts_def split: list.splits)

lemma addResolver_invalid_key:
  "resolverKeyParts (normalizeResolverKey key) = Inl e \<Longrightarrow>
     addResolver P scope key resValue st = (Inl e, st)"
  by (simp add: addResolver_def)

text \<open>
  Claim C6, at the input where the source departs from it. The keys
  \<^verbatim>\<open>"Query"\<close> and \<^verbatim>\<open>"Query a b"\<close> are refused, and so is \<^verbatim>\<open>"Query "\<close>
  with its empty field name; but \<^verbatim>\<open>" getNote"\<close>, whose type name is empty, is
  accepted: the resolver is created with the type name \<^verbatim>\<open>""\<close>.
\<close>

theorem addResolver_accepts_empty_type_name:
  "addResolver uniqueNames ''stack'' ''Query'' (ResString ''src/get.main'') plainApi =
     (Inl (InvalidResolverKey ''Query''), plainApi) \<and>
   addResolver uniqueNames ''stack'' ''Query a b'' (ResString ''src/get.main'') plainApi =
     (Inl (InvalidResolverKey ''Query a b''), plainApi) \<and>
   addResolver uniqueNames ''stack'' ''Query '' (ResString ''src/get.main'') plainApi =
     (Inl (InvalidResolverField ''Query ''), plainApi) \<and>
   resolverKeyParts (normalizeResolverKey '' getNote'') = Inr ([], ''getNote'') \<and>
   fst (addResolver uniqueNames ''stack'' '' getNote'' (ResString ''src/get.main'') plainApi) =
     Inr (Some 1) \<and>
   map (\<lambda>entry. (fst entry, resTypeName (snd entry), resFieldName (snd entry)))
     (resolversByResKey
        (snd (addResolver uniqueNames ''stack'' '' getNote'' (ResString ''src/get.main'') plainApi))) =
     [('' getNote'', [], ''getNote'')]"
proof -
  have 1: "resolverKeyParts (normalizeResolverKey ''Query'') = Inl (InvalidResolverKey ''Query'')"
    and 2: "resolverKeyParts (normalizeResolverKey ''Query a b'') =
              Inl (InvalidResolverKey ''Query a b'')"
    and 3: "resolverKeyParts (normalizeResolverKey ''Query '') =
              Inl (InvalidResolverField ''Query '')"
    and 4: "resolverKeyParts (normalizeResolverKey '' getNote'') = Inr ([], ''getNote'')"
    by code_simp+
  have 5: "fst (addResolver uniqueNames ''stack'' '' getNote'' (ResString ''src/get.main'') plainApi) =
             Inr (Some 1)"
    by code_simp
  have 6: "map (\<lambda>entry. (fst entry, resTypeName (snd entry), resFieldName (snd entry)))
     (resolversByResKey
        (snd (addResolver uniqueNames ''stack'' '' getNote'' (ResString ''src/get.main'') plainApi))) =
     [('' getNote'', [], ''getNote'')]"
    by code_simp
  show ?thesis
    using addResolver_invalid_key [OF 1] addResolver_invalid_key [OF 2]
      addResolver_invalid_key [OF 3] 4 5 6
    by simp
qed

section \<open>Adding a data source\<close>

lemma lambdaDataSource_Inr:
  "lambdaDataSource P scope key input name description st = (Inr (ds, lambda), st') \<Longrightarrow>
     nextHandle st \<le> dsHandle ds \<and> dsHandle ds < nextHandle st' \<and> dsKey ds = key \<and>
     lambda \<noteq> None"
  by (auto simp: lambdaDataSource_def dest!: provide_Inr fromDefinition_next
      split: prod.splits sum.splits)

lemma plainDataSource_Inr:
  "plainDataSource P key b name description st = (Inr (ds, lambda), st') \<Longrightarrow>
     nextHandle st \<le> dsHandle ds \<and> dsHandle ds < nextHandle st' \<and> dsKey ds = key \<and>
     lambda = None"
  by (auto simp: plainDataSource_def dest!: provide_Inr split: prod.splits sum.splits)

lemma realizeDataSource_Inr:
  "realizeDataSource P scope key dsValue st = (Inr (ds, lambda), st') \<Longrightarrow>
     nextHandle st \<le> dsHandle ds \<and> dsHandle ds < nextHandle st' \<and> dsKey ds = key"
  by (cases dsValue)
     (auto dest: lambdaDataSource_Inr plainDataSource_Inr split: if_splits option.splits)

lemma lambdaDataSource_error:
  "lambdaDataSource P scope key input name description st = (Inl e, st') \<Longrightarrow>
     (\<exists>r. e = ProviderError r) \<or> (\<exists>i. e = ConflictingConfiguration i)"
  by (auto simp: lambdaDataSource_def dest: provide_error fromDefinition_error
      split: prod.splits sum.splits)

lemma plainDataSource_error:
  "plainDataSource P key b name description st = (Inl e, st') \<Longrightarrow>
     (\<exists>r. e = ProviderError r) \<or> (\<exists>i. e = ConflictingConfiguration i)"
  by (auto simp: plainDataSource_def dest: provide_error split: prod.splits sum.splits)

lemma realizeDataSource_error:
  "realizeDataSource P scope key dsValue st = (Inl e, st') \<Longrightarrow>
     (\<exists>r. e = ProviderError r) \<or> (\<exists>i. e = ConflictingConfiguration i)"
  by (cases dsValue)
     (auto dest: lambdaDataSource_error plainDataSource_error split: if_splits option.splits)

text \<open>What the two assignments change.\<close>

lemma setDataSource_fields:
  "dataSourcesByDsKey (setDataSource key d st) =
     (if key = ''__proto__'' then dataSourcesByDsKey st
      else AList.update key d (dataSourcesByDsKey st))"
  "dataSourcesPrototype (setDataSource key d st) =
     (if key = ''__proto__'' then Some d else dataSourcesPrototype st)"
  "functionsByDsKey (setDataSource key d st) = functionsByDsKey st"
  "functionsPrototype (setDataSource key d st) = functionsPrototype st"
  "dsKeysByResKey (setDataSource key d st) = dsKeysByResKey st"
  "resolversByResKey (setDataSource key d st) = resolversByResKey st"
  "permissionsAttachedForAllFunctions (setDataSource key d st) =
     permissionsAttachedForAllFunctions st"
  "attached (setDataSource key d st) = attached st"
  "defaultsFunction (setDataSource key d st) = defaultsFunction st"
  "accepted (setDataSource key d st) = accepted st"
  "nextHandle (setDataSource key d st) = nextHandle st"
  "graphqlApi (setDataSource key d st) = graphqlApi st"
  by (simp_all add: setDataSource_def)

lemma setFunction_fields:
  "functionsByDsKey (setFunction key fn st) =
     (if key = ''__proto__'' then functionsByDsKey st
      else AList.update key fn (functionsByDsKey st))"
  "functionsPrototype (setFunction key fn st) =
     (if key = ''__proto__'' then Some fn else functionsPrototype st)"
  "dataSourcesByDsKey (setFunction key fn st) = dataSourcesByDsKey st"
  "dataSourcesPrototype (setFunction key fn st) = dataSourcesPrototype st"
  "dsKeysByResKey (setFunction key fn st) = dsKeysByResKey st"
  "resolversByResKey (setFunction key fn st) = resolversByResKey st"
  "permissionsAttachedForAllFunctions (setFunction key fn st) =
     permissionsAttachedForAllFunctions st"
  "attached (setFunction key fn st) = attached st"
  "defaultsFunction (setFunction key fn st) = defaultsFunction st"
  "accepted (setFunction key fn st) = accepted st"
  "nextHandle (setFunction key fn st) = nextHandle st"
  "graphqlApi (setFunction key fn st) = graphqlApi st"
  by (simp_all add: setFunction_def)

lemma addDataSource_Inl:
  "addDataSource P scope key dsValue st = (Inl e, st') \<Longrightarrow>
     outsideProvider st' = outsideProvider st"
  by (auto simp: addDataSource_def Let_def dest: realizeDataSource_frame
      split: prod.splits sum.splits option.splits)

lemma addDataSource_Inr:
  assumes "addDataSource P scope key dsValue st = (Inr lambda, st')"
  shows "\<exists>ds. dataSourcesByDsKey st' =
                (if key = ''__proto__'' then dataSourcesByDsKey st
                 else AList.update key ds (dataSourcesByDsKey st)) \<and>
              dataSourcesPrototype st' =
                (if key = ''__proto__'' then Some ds else dataSourcesPrototype st) \<and>
              nextHandle st \<le> dsHandle ds \<and> dsHandle ds < nextHandle st' \<and> dsKey ds = key"
    and "functionsByDsKey st' =
           (case lambda of None \<Rightarrow> functionsByDsKey st
            | Some fn \<Rightarrow>
                if key = ''__proto__'' then functionsByDsKey st
                else AList.update key fn (functionsByDsKey st))"
    and "functionsPrototype st' =
           (case lambda of None \<Rightarrow> functionsPrototype st
            | Some fn \<Rightarrow> if key = ''__proto__'' then Some fn else functionsPrototype st)"
    and "dsKeysByResKey st' = dsKeysByResKey st"
    and "resolversByResKey st' = resolversByResKey st"
    and "permissionsAttachedForAllFunctions st' = permissionsAttachedForAllFunctions st"
    and "attached st' = attached st"
    and "defaultsFunction st' = defaultsFunction st"
proof -
  obtain ds st1 where r: "realizeDataSource P scope key dsValue st = (Inr (ds, lambda), st1)"
    and st': "st' = (case lambda of
                None \<Rightarrow> setDataSource key ds st1
              | Some fn \<Rightarrow> setFunction key fn (setDataSource key ds st1))"
    using assms
    by (auto simp: addDataSource_def Let_def split: prod.splits sum.splits option.splits)
  note f = outsideProvider_fields [OF realizeDataSource_frame [OF r]]
  note h = realizeDataSource_Inr [OF r]
  note s = setDataSource_fields setFunction_fields
  show "\<exists>ds. dataSourcesByDsKey st' =
                (if key = ''__proto__'' then dataSourcesByDsKey st
                 else AList.update key ds (dataSourcesByDsKey st)) \<and>
              dataSourcesPrototype st' =
                (if key = ''__proto__'' then Some ds else dataSourcesPrototype st) \<and>
              nextHandle st \<le> dsHandle ds \<and> dsHandle ds < nextHandle st' \<and> dsKey ds = key"
    using f h st' by (intro exI [of _ ds]) (simp add: s split: option.splits)
  show "functionsByDsKey st' =
           (case lambda of None \<Rightarrow> functionsByDsKey st
            | Some fn \<Rightarrow>
                if key = ''__proto__'' then functionsByDsKey st
                else AList.update key fn (functionsByDsKey st))"
    using f st' by (simp add: s split: option.splits)
  show "functionsPrototype st' =
           (case lambda of None \<Rightarrow> functionsPrototype st
            | Some fn \<Rightarrow> if key = ''__proto__'' then Some fn else functionsPrototype st)"
    using f st' by (simp add: s split: option.splits)
  show "dsKeysByResKey st' = dsKeysByResKey st"
    using f st' by (simp add: s split: option.splits)
  show "resolversByResKey st' = resolversByResKey st"
    using f st' by (simp add: s split: option.splits)
  show "permissionsAttachedForAllFunctions st' = permissionsAttachedForAllFunctions st"
    using f st' by (simp add: s split: option.splits)
  show "attached st' = attached st"
    using f st' by (simp add: s split: option.splits)
  show "defaultsFunction st' = defaultsFunction st"
    using f st' by (simp add: s split: option.splits)
qed

lemma addDataSource_error:
  "addDataSource P scope key dsValue st = (Inl e, st') \<Longrightarrow>
     (\<exists>r. e = ProviderError r) \<or> (\<exists>i. e = ConflictingConfiguration i)"
  by (auto simp: addDataSource_def Let_def dest: realizeDataSource_error
      split: prod.splits sum.splits option.splits)

lemma map_fst_update: "fst ` set (AList.update k v al) = insert k (fst ` set al)"
  using dom_update [of k v al] by (simp add: dom_map_of_conv_image_fst)

lemma set_update: "(a, b) \<in> set (AList.update k v al) \<Longrightarrow> (a = k \<and> b = v) \<or> (a, b) \<in> set al"
  by (induction al) (auto split: if_splits)

section \<open>Adding a resolver\<close>

lemma buildDataSourceKey_not_proto: "buildDataSourceKey typeName fieldName \<noteq> ''__proto__''"
  by (simp add: buildDataSourceKey_def)

text \<open>A resolver key that passes the check has a space, so it is not \<^verbatim>\<open>__proto__\<close>.\<close>

lemma splitSpace_no_space: "CHR '' '' \<notin> set s \<Longrightarrow> splitSpace s = [s]"
  by (induction s) auto

lemma resolverKeyParts_space:
  "resolverKeyParts resKey = Inr parts \<Longrightarrow> CHR '' '' \<in> set resKey"
  using splitSpace_no_space [of resKey]
  by (auto simp: resolverKeyParts_def split: list.splits if_splits)

lemma resolverKeyParts_not_inherited:
  "resolverKeyParts resKey = Inr parts \<Longrightarrow> resKey \<notin> set objectPrototype"
  by (auto simp: objectPrototype_def dest!: resolverKeyParts_space)

lemma storeBinding_fields:
  "dsKeysByResKey (storeBinding resKey b st) =
     AList.update resKey (bDataSourceKey b) (dsKeysByResKey st)"
  "resolversByResKey (storeBinding resKey b st) = resolversByResKey st"
  "permissionsAttachedForAllFunctions (storeBinding resKey b st) =
     permissionsAttachedForAllFunctions st"
  "attached (storeBinding resKey b st) = attached st"
  "defaultsFunction (storeBinding resKey b st) = defaultsFunction st"
  "accepted (storeBinding resKey b st) = accepted st"
  "nextHandle (storeBinding resKey b st) = nextHandle st"
  "graphqlApi (storeBinding resKey b st) = graphqlApi st"
  by (auto simp: storeBinding_def Let_def setDataSource_fields setFunction_fields
      split: option.splits property.splits)

lemma storeBinding_unbound:
  "bLambda b = None \<Longrightarrow>
     functionsByDsKey (storeBinding resKey b st) = functionsByDsKey st \<and>
     functionsPrototype (storeBinding resKey b st) = functionsPrototype st \<and>
     dataSourcesByDsKey (storeBinding resKey b st) = dataSourcesByDsKey st \<and>
     dataSourcesPrototype (storeBinding resKey b st) = dataSourcesPrototype st"
  by (simp add: storeBinding_def Let_def)

lemma storeBinding_created:
  "bLambda b = Some fn \<Longrightarrow> bDataSource b = Value d \<Longrightarrow> bDataSourceKey b \<noteq> ''__proto__'' \<Longrightarrow>
     functionsByDsKey (storeBinding resKey b st) =
       AList.update (bDataSourceKey b) fn (functionsByDsKey st) \<and>
     functionsPrototype (storeBinding resKey b st) = functionsPrototype st \<and>
     dataSourcesByDsKey (storeBinding resKey b st) =
       AList.update (bDataSourceKey b) d (dataSourcesByDsKey st) \<and>
     dataSourcesPrototype (storeBinding resKey b st) = dataSourcesPrototype st"
  by (simp add: storeBinding_def Let_def setDataSource_fields setFunction_fields)

lemma addResolver_cases:
  assumes "addResolver P scope key resValue st = (res, st')"
  obtains
    (invalid) e where "resolverKeyParts (normalizeResolverKey key) = Inl e"
      "res = Inl e" "st' = st"
  | (unbound) typeName fieldName e where
      "resolverKeyParts (normalizeResolverKey key) = Inr (typeName, fieldName)"
      "bindResolver P scope (normalizeResolverKey key) typeName fieldName resValue st = (Inl e, st')"
      "res = Inl e"
  | (refused) typeName fieldName b st1 where
      "resolverKeyParts (normalizeResolverKey key) = Inr (typeName, fieldName)"
      "bindResolver P scope (normalizeResolverKey key) typeName fieldName resValue st = (Inr b, st1)"
      "\<not> accepts P (accepted st1)
           (CreateResolver typeName fieldName (bDataSource b) (bResolverProps b))"
      "res = Inl (ProviderError (CreateResolver typeName fieldName (bDataSource b) (bResolverProps b)))"
      "st' = storeBinding (normalizeResolverKey key) b st1"
  | (created) typeName fieldName b st1 where
      "resolverKeyParts (normalizeResolverKey key) = Inr (typeName, fieldName)"
      "bindResolver P scope (normalizeResolverKey key) typeName fieldName resValue st = (Inr b, st1)"
      "accepts P (accepted st1)
           (CreateResolver typeName fieldName (bDataSource b) (bResolverProps b))"
      "res = Inr (bLambda b)"
      "st' = (storeBinding (normalizeResolverKey key) b st1)
               \<lparr>accepted := accepted st1 @
                   [CreateResolver typeName fieldName (bDataSource b) (bResolverProps b)],
                nextHandle := Suc (nextHandle st1),
                resolversByResKey :=
                  AList.update (normalizeResolverKey key)
                    \<lparr>resHandle = nextHandle st1, resTypeName = typeName, resFieldName = fieldName,
                     resDataSource = bDataSource b, resConfig = bResolverProps b\<rparr>
                    (resolversByResKey st1)\<rparr>"
  using assms
  by (auto simp: addResolver_def Let_def provide_def storeBinding_fields
      split: sum.splits prod.splits if_splits)

lemma map_of_member: "k \<in> set (map fst al) \<Longrightarrow> map_of al k \<noteq> None"
  by (simp add: map_of_eq_None_iff)

lemma addResolver_unbound:
  "resolverKeyParts (normalizeResolverKey key) = Inr (typeName, fieldName) \<Longrightarrow>
   bindResolver P scope (normalizeResolverKey key) typeName fieldName resValue st = (Inl e, st1) \<Longrightarrow>
     addResolver P scope key resValue st = (Inl e, st1)"
  by (simp add: addResolver_def)

lemma lambdaResolver_Inr:
  "lambdaResolver P scope typeName fieldName input st = (Inr (lambda, d), st') \<Longrightarrow>
     nextHandle st \<le> dsHandle d \<and> dsHandle d < nextHandle st' \<and>
     dsKey d = buildDataSourceKey typeName fieldName"
  by (auto simp: lambdaResolver_def Let_def dest!: provide_Inr fromDefinition_next
      split: prod.splits sum.splits)

text \<open>
  The bindings of \<^const>\<open>bindResolver\<close> come in two kinds: with a function and
  the data source created for it under the derived key, or without a function.
  The errors it returns are not refusals of a resolver.
\<close>

lemma bindResolver_lambda:
  assumes "bindResolver P scope resKey typeName fieldName resValue st = (Inr b, st1)"
    and "bLambda b = Some fn"
  shows "\<exists>d. bDataSource b = Value d \<and> nextHandle st \<le> dsHandle d \<and>
             dsKey d = buildDataSourceKey typeName fieldName \<and>
             bDataSourceKey b = buildDataSourceKey typeName fieldName"
proof -
  have step: "\<exists>d. bDataSource b = Value d \<and> nextHandle st \<le> dsHandle d \<and>
             dsKey d = buildDataSourceKey typeName fieldName \<and>
             bDataSourceKey b = buildDataSourceKey typeName fieldName"
    if l: "lambdaResolver P scope typeName fieldName input st = (r1, sta)"
      and res: "(Inr b, st1) =
        (case r1 of
           Inl e \<Rightarrow> (Inl e, sta)
         | Inr pair \<Rightarrow>
             (case c of
                Inl e \<Rightarrow> (Inl e, sta)
              | Inr config \<Rightarrow>
                  (Inr \<lparr>bLambda = Some (fst pair), bDataSource = Value (snd pair),
                        bDataSourceKey = buildDataSourceKey typeName fieldName,
                        bResolverProps = config\<rparr>, sta)))"
    for input r1 sta and c :: "error + resolver_config"
  proof (cases r1)
    case (Inl e)
    with res show ?thesis by simp
  next
    case (Inr pair)
    obtain lambda d where pair: "pair = (lambda, d)" by (cases pair)
    from lambdaResolver_Inr [OF l [unfolded Inr pair]] res Inr pair show ?thesis
      by (auto split: sum.splits)
  qed
  show ?thesis
  proof (cases resValue)
    case (ResString s)
    show ?thesis
    proof (cases "s \<in> set (map fst (dataSourcesByDsKey st)) \<or> CHR ''.'' \<notin> set s")
      case True
      with assms ResString show ?thesis by (auto split: if_splits)
    next
      case False
      obtain r1 sta where
        l: "lambdaResolver P scope typeName fieldName (Definition (Handler s)) st = (r1, sta)"
        by (cases "lambdaResolver P scope typeName fieldName (Definition (Handler s)) st")
      show ?thesis
        using assms ResString False l
        by (intro step [OF l, where c = "Inr emptyConfig"]) (auto split: sum.splits)
    qed
  next
    case (ResFn f)
    obtain r1 sta where
      l: "lambdaResolver P scope typeName fieldName (Definition (FnConstruct f)) st = (r1, sta)"
      by (cases "lambdaResolver P scope typeName fieldName (Definition (FnConstruct f)) st")
    show ?thesis
      using assms ResFn l
      by (intro step [OF l, where c = "Inr emptyConfig"]) (auto split: sum.splits)
  next
    case (ResProps props)
    show ?thesis
    proof (cases "rpFunction props")
      case (Some f)
      obtain r1 sta where
        l: "lambdaResolver P scope typeName fieldName (Definition f) st = (r1, sta)"
        by (cases "lambdaResolver P scope typeName fieldName (Definition f) st")
      show ?thesis
        using assms ResProps Some l
        by (intro step [OF l, where c = "buildResolverProps P props"]) (auto split: sum.splits)
    next
      case None
      show ?thesis
      proof (cases "rpDataSource props")
        case (Some k)
        with assms ResProps None show ?thesis by (auto split: sum.splits)
      next
        case n: None
        obtain r1 sta where
          l: "lambdaResolver P scope typeName fieldName (ResolverObject props) st = (r1, sta)"
          by (cases "lambdaResolver P scope typeName fieldName (ResolverObject props) st")
        show ?thesis
          using assms ResProps None n l
          by (intro step [OF l, where c = "Inr emptyConfig"]) (auto split: sum.splits)
      qed
    qed
  qed
qed

text \<open>
  What the writes of lines 832-837 leave in the two registries of data-source
  keys, told from the state before the call.
\<close>

lemma bindResolver_store:
  assumes "bindResolver P scope resKey typeName fieldName resValue st = (Inr b, st1)"
  shows "functionsPrototype (storeBinding resKey b st1) = functionsPrototype st"
    and "dataSourcesPrototype (storeBinding resKey b st1) = dataSourcesPrototype st"
    and "bLambda b = None \<Longrightarrow>
           functionsByDsKey (storeBinding resKey b st1) = functionsByDsKey st \<and>
           dataSourcesByDsKey (storeBinding resKey b st1) = dataSourcesByDsKey st"
    and "bLambda b = Some fn \<Longrightarrow>
           \<exists>d. bDataSource b = Value d \<and> nextHandle st \<le> dsHandle d \<and>
               dsKey d = buildDataSourceKey typeName fieldName \<and>
               bDataSourceKey b = buildDataSourceKey typeName fieldName \<and>
               functionsByDsKey (storeBinding resKey b st1) =
                 AList.update (buildDataSourceKey typeName fieldName) fn (functionsByDsKey st) \<and>
               dataSourcesByDsKey (storeBinding resKey b st1) =
                 AList.update (buildDataSourceKey typeName fieldName) d (dataSourcesByDsKey st)"
proof -
  note f = outsideProvider_fields [OF bindResolver_frame [OF assms]]
  have created: "\<exists>d. bDataSource b = Value d \<and> nextHandle st \<le> dsHandle d \<and>
               dsKey d = buildDataSourceKey typeName fieldName \<and>
               bDataSourceKey b = buildDataSourceKey typeName fieldName \<and>
               functionsByDsKey (storeBinding resKey b st1) =
                 AList.update (buildDataSourceKey typeName fieldName) fn (functionsByDsKey st) \<and>
               dataSourcesByDsKey (storeBinding resKey b st1) =
                 AList.update (buildDataSourceKey typeName fieldName) d (dataSourcesByDsKey st) \<and>
               functionsPrototype (storeBinding resKey b st1) = functionsPrototype st \<and>
               dataSourcesPrototype (storeBinding resKey b st1) = dataSourcesPrototype st"
    if l: "bLambda b = Some fn" for fn
  proof -
    from bindResolver_lambda [OF assms l] obtain d where
      d: "bDataSource b = Value d" "nextHandle st \<le> dsHandle d"
        "dsKey d = buildDataSourceKey typeName fieldName"
        "bDataSourceKey b = buildDataSourceKey typeName fieldName"
      by blast
    have "bDataSourceKey b \<noteq> ''__proto__''"
      using d(4) buildDataSourceKey_not_proto by simp
    from storeBinding_created [OF l d(1) this, of resKey st1] d f show ?thesis
      by simp
  qed
  show "functionsPrototype (storeBinding resKey b st1) = functionsPrototype st"
    using created storeBinding_unbound [of b resKey st1] f by (cases "bLambda b") auto
  show "dataSourcesPrototype (storeBinding resKey b st1) = dataSourcesPrototype st"
    using created storeBinding_unbound [of b resKey st1] f by (cases "bLambda b") auto
  show "bLambda b = None \<Longrightarrow>
           functionsByDsKey (storeBinding resKey b st1) = functionsByDsKey st \<and>
           dataSourcesByDsKey (storeBinding resKey b st1) = dataSourcesByDsKey st"
    using storeBinding_unbound [of b resKey st1] f by simp
  show "bLambda b = Some fn \<Longrightarrow>
           \<exists>d. bDataSource b = Value d \<and> nextHandle st \<le> dsHandle d \<and>
               dsKey d = buildDataSourceKey typeName fieldName \<and>
               bDataSourceKey b = buildDataSourceKey typeName fieldName \<and>
               functionsByDsKey (storeBinding resKey b st1) =
                 AList.update (buildDataSourceKey typeName fieldName) fn (functionsByDsKey st) \<and>
               dataSourcesByDsKey (storeBinding resKey b st1) =
                 AList.update (buildDataSourceKey typeName fieldName) d (dataSourcesByDsKey st)"
    using created by blast
qed

lemma lambdaResolver_error:
  "lambdaResolver P scope typeName fieldName input st = (Inl e, st') \<Longrightarrow>
     (\<forall>t f d c. e \<noteq> ProviderError (CreateResolver t f d c))"
  by (auto simp: lambdaResolver_def Let_def fromDefinition_def provide_def
      split: prod.splits sum.splits if_splits fn_input.splits function_definition.splits)

lemma buildResolverProps_error:
  "buildResolverProps P props = Inl e \<Longrightarrow> (\<exists>path. e = TemplateNotFound path)"
  by (auto simp: buildResolverProps_def buildMappingTemplate_def
      split: sum.splits option.splits if_splits)

lemma bindResolver_error:
  "bindResolver P scope resKey typeName fieldName resValue st = (Inl e, st') \<Longrightarrow>
     (\<forall>t f d c. e \<noteq> ProviderError (CreateResolver t f d c))"
  by (cases resValue)
     (auto dest: lambdaResolver_error buildResolverProps_error
      split: if_splits option.splits prod.splits sum.splits)

lemma resolverKeyParts_error:
  "resolverKeyParts resKey = Inl e \<Longrightarrow> (\<forall>t f d c. e \<noteq> ProviderError (CreateResolver t f d c))"
  by (auto simp: resolverKeyParts_def split: list.splits if_splits)

section \<open>Keys are kept\<close>

lemma retainsKeys_refl: "retainsKeys st st"
  by (simp add: retainsKeys_def)

lemma retainsKeys_trans: "retainsKeys a b \<Longrightarrow> retainsKeys b c \<Longrightarrow> retainsKeys a c"
  by (simp only: retainsKeys_def) blast

lemma retainsKeys_registries: "registries st' = registries st \<Longrightarrow> retainsKeys st st'"
  by (simp add: retainsKeys_def registries_def)

lemma replayPermissions_eq:
  "replayPermissions lambda st =
     (case lambda of None \<Rightarrow> st
      | Some fn \<Rightarrow>
          st\<lparr>attached := attached st @ map (Pair fn) (permissionsAttachedForAllFunctions st)\<rparr>)"
proof -
  have "foldl (\<lambda>s permissions. fnAttachPermissions fn permissions s) s0 ps =
          s0\<lparr>attached := attached s0 @ map (Pair fn) ps\<rparr>" for fn s0 ps
    by (induction ps arbitrary: s0) (simp_all add: fnAttachPermissions_def)
  then show ?thesis
    by (simp add: replayPermissions_def split: option.splits)
qed

lemma replayPermissions_registries: "registries (replayPermissions lambda st) = registries st"
  by (simp add: replayPermissions_eq registries_def split: option.splits)

lemma replayPermissions_accepted: "accepted (replayPermissions lambda st) = accepted st"
  by (simp add: replayPermissions_eq split: option.splits)

lemma retainsKeys_replay: "retainsKeys st (replayPermissions lambda st)"
  using replayPermissions_registries retainsKeys_registries by blast

lemma attachPermissions_eq:
  "attachPermissions permissions st =
     st\<lparr>attached := attached st @ map (\<lambda>fn. (fn, permissions)) (map snd (functionsByDsKey st)),
        permissionsAttachedForAllFunctions :=
          permissionsAttachedForAllFunctions st @ [permissions]\<rparr>"
proof -
  have "foldl (\<lambda>s fn. fnAttachPermissions fn permissions s) s0 fns =
          s0\<lparr>attached := attached s0 @ map (\<lambda>fn. (fn, permissions)) fns\<rparr>" for s0 fns
    by (induction fns arbitrary: s0) (simp_all add: fnAttachPermissions_def)
  then show ?thesis
    by (simp add: attachPermissions_def)
qed

lemma attachPermissions_registries:
  "registries (attachPermissions permissions st) = registries st"
  by (simp add: attachPermissions_eq registries_def)

lemma addDataSource_retainsKeys:
  assumes "addDataSource P scope key dsValue st = (res, st')"
  shows "retainsKeys st st'"
proof (cases res)
  case (Inl e)
  with assms have "outsideProvider st' = outsideProvider st"
    by (auto dest: addDataSource_Inl)
  then show ?thesis
    by (simp add: outsideProvider_def retainsKeys_registries)
next
  case (Inr lambda)
  with assms have a: "addDataSource P scope key dsValue st = (Inr lambda, st')" by simp
  show ?thesis
    using addDataSource_Inr [OF a]
    by (auto simp: retainsKeys_def map_fst_update split: option.splits if_splits)
qed

lemma addResolver_retainsKeys:
  assumes "addResolver P scope key resValue st = (res, st')"
  shows "retainsKeys st st'"
  using assms
proof (cases rule: addResolver_cases)
  case (invalid e)
  then show ?thesis by (simp add: retainsKeys_refl)
next
  case (unbound typeName fieldName e)
  then show ?thesis
    using bindResolver_frame [OF unbound(2)]
    by (simp add: outsideProvider_def retainsKeys_registries)
next
  case (refused typeName fieldName b st1)
  note f = outsideProvider_fields [OF bindResolver_frame [OF refused(2)]]
  show ?thesis
  proof (cases "bLambda b")
    case None
    with bindResolver_store(3) [OF refused(2)] f show ?thesis
      unfolding refused(5)
      by (force simp: retainsKeys_def storeBinding_fields map_fst_update)
  next
    case (Some fn)
    with bindResolver_store(4) [OF refused(2)] f show ?thesis
      unfolding refused(5)
      by (force simp: retainsKeys_def storeBinding_fields map_fst_update)
  qed
next
  case (created typeName fieldName b st1)
  note f = outsideProvider_fields [OF bindResolver_frame [OF created(2)]]
  show ?thesis
  proof (cases "bLambda b")
    case None
    with bindResolver_store(3) [OF created(2)] f show ?thesis
      unfolding created(5)
      by (force simp: retainsKeys_def storeBinding_fields map_fst_update)
  next
    case (Some fn)
    with bindResolver_store(4) [OF created(2)] f show ?thesis
      unfolding created(5)
      by (force simp: retainsKeys_def storeBinding_fields map_fst_update)
  qed
qed

lemma addResolvers_retainsKeys:
  "addResolvers P scope batch st = (res, st') \<Longrightarrow> retainsKeys st st'"
proof (induction batch arbitrary: st)
  case Nil
  then show ?case by (simp add: retainsKeys_refl)
next
  case (Cons entry batch)
  obtain key resValue where entry: "entry = (key, resValue)" by (cases entry)
  obtain r sta where step: "addResolver P scope key resValue st = (r, sta)"
    by (cases "addResolver P scope key resValue st")
  note k = addResolver_retainsKeys [OF step]
  show ?case
  proof (cases r)
    case (Inl e)
    with Cons.prems entry step k show ?thesis by simp
  next
    case (Inr lambda)
    with Cons.prems entry step
    have "addResolvers P scope batch (replayPermissions lambda sta) = (res, st')" by simp
    from Cons.IH [OF this] k show ?thesis
      using retainsKeys_replay retainsKeys_trans by blast
  qed
qed

lemma addDataSources_retainsKeys:
  "addDataSources P scope batch st = (res, st') \<Longrightarrow> retainsKeys st st'"
proof (induction batch arbitrary: st)
  case Nil
  then show ?case by (simp add: retainsKeys_refl)
next
  case (Cons entry batch)
  obtain key dsValue where entry: "entry = (key, dsValue)" by (cases entry)
  obtain r sta where step: "addDataSource P scope key dsValue st = (r, sta)"
    by (cases "addDataSource P scope key dsValue st")
  note k = addDataSource_retainsKeys [OF step]
  show ?case
  proof (cases r)
    case (Inl e)
    with Cons.prems entry step k show ?thesis by simp
  next
    case (Inr lambda)
    with Cons.prems entry step
    have "addDataSources P scope batch (replayPermissions lambda sta) = (res, st')" by simp
    from Cons.IH [OF this] k show ?thesis
      using retainsKeys_replay retainsKeys_trans by blast
  qed
qed

text \<open>The steps of a sequence of calls, for inductions over it.\<close>

lemma runCalls_attach:
  "runCalls P (AttachPermissions permissions # rest) st = (outcomes, st') \<Longrightarrow>
     \<exists>os. outcomes = None # os \<and> runCalls P rest (attachPermissions permissions st) = (os, st')"
  by (auto split: prod.splits)

lemma runCalls_addDataSources:
  "runCalls P (AddDataSources scope batch # rest) st = (outcomes, st') \<Longrightarrow>
     \<exists>outcome st1 os. outcomes = outcome # os \<and>
        addDataSources P scope batch st = (outcome, st1) \<and> runCalls P rest st1 = (os, st')"
  by (auto split: prod.splits)

lemma runCalls_addResolvers:
  "runCalls P (AddResolvers scope batch # rest) st = (outcomes, st') \<Longrightarrow>
     \<exists>outcome st1 os. outcomes = outcome # os \<and>
        addResolvers P scope batch st = (outcome, st1) \<and> runCalls P rest st1 = (os, st')"
  by (auto split: prod.splits)

lemma runCalls_retainsKeys:
  "runCalls P calls st = (outcomes, st') \<Longrightarrow> retainsKeys st st'"
proof (induction calls arbitrary: st outcomes)
  case Nil
  then show ?case by (simp add: retainsKeys_refl)
next
  case (Cons c calls)
  show ?case
  proof (cases c)
    case (AttachPermissions permissions)
    from Cons.prems obtain os where
      r: "runCalls P calls (attachPermissions permissions st) = (os, st')"
      using runCalls_attach [OF Cons.prems [unfolded AttachPermissions]] by blast
    have "retainsKeys st (attachPermissions permissions st)"
      using attachPermissions_registries retainsKeys_registries by blast
    with Cons.IH [OF r] show ?thesis
      using retainsKeys_trans by blast
  next
    case (AddDataSources scope batch)
    from Cons.prems obtain outcome st1 os where
      a: "addDataSources P scope batch st = (outcome, st1)" and r: "runCalls P calls st1 = (os, st')"
      using runCalls_addDataSources [OF Cons.prems [unfolded AddDataSources]] by blast
    from addDataSources_retainsKeys [OF a] Cons.IH [OF r] show ?thesis
      using retainsKeys_trans by blast
  next
    case (AddResolvers scope batch)
    from Cons.prems obtain outcome st1 os where
      a: "addResolvers P scope batch st = (outcome, st1)" and r: "runCalls P calls st1 = (os, st')"
      using runCalls_addResolvers [OF Cons.prems [unfolded AddResolvers]] by blast
    from addResolvers_retainsKeys [OF a] Cons.IH [OF r] show ?thesis
      using retainsKeys_trans by blast
  qed
qed

section \<open>Constructs of recorded data sources\<close>




























section \<open>A key that is already there\<close>















section \<open>Resolvers that name a data source\<close>

lemma getProperty_own:
  "map_of own k = Some v \<Longrightarrow> getProperty own proto k = Value v"
  by (simp add: getProperty_def)

lemma getProperty_Undefined:
  "getProperty own proto k = Undefined \<longleftrightarrow>
     map_of own k = None \<and> proto = None \<and> k \<notin> set objectPrototype"
  by (auto simp: getProperty_def split: option.splits)

lemma getProperty_inherited:
  "map_of own k = None \<Longrightarrow> k \<in> set objectPrototype \<Longrightarrow> getProperty own None k = Inherited k"
  by (simp add: getProperty_def)

text \<open>
  Claim C1. For a resolver whose key is valid and whose value is a string:
  if the string is a key of the data-source registry, the function and
  data-source registries stay as they are, the resolver key is bound to the
  string, and the only request made is the one for the resolver, which is
  given the registered data source; if the string is not a key and has no
  dot, the call fails with \<^verbatim>\<open>UnknownDataSource\<close> and changes nothing. The first
  case does not ask whether the string has a dot, so the registry is looked at
  first.
\<close>

theorem string_resolver_binding:
  assumes "resolverKeyParts (normalizeResolverKey key) = Inr (typeName, fieldName)"
    and "addResolver P scope key (ResString s) st = (res, st')"
  shows "(s \<in> set (map fst (dataSourcesByDsKey st)) \<longrightarrow>
            (\<exists>d. map_of (dataSourcesByDsKey st) s = Some d \<and>
                 getProperty (dataSourcesByDsKey st) (dataSourcesPrototype st) s = Value d) \<and>
            functionsByDsKey st' = functionsByDsKey st \<and>
            dataSourcesByDsKey st' = dataSourcesByDsKey st \<and>
            functionsPrototype st' = functionsPrototype st \<and>
            dataSourcesPrototype st' = dataSourcesPrototype st \<and>
            map_of (dsKeysByResKey st') (normalizeResolverKey key) = Some s \<and>
            (if accepts P (accepted st)
                  (CreateResolver typeName fieldName
                     (getProperty (dataSourcesByDsKey st) (dataSourcesPrototype st) s) emptyConfig)
             then res = Inr None \<and>
                  accepted st' = accepted st @
                    [CreateResolver typeName fieldName
                       (getProperty (dataSourcesByDsKey st) (dataSourcesPrototype st) s)
                       emptyConfig] \<and>
                  map_of (resolversByResKey st') (normalizeResolverKey key) =
                    Some \<lparr>resHandle = nextHandle st, resTypeName = typeName,
                          resFieldName = fieldName,
                          resDataSource =
                            getProperty (dataSourcesByDsKey st) (dataSourcesPrototype st) s,
                          resConfig = emptyConfig\<rparr>
             else res = Inl (ProviderError
                    (CreateResolver typeName fieldName
                       (getProperty (dataSourcesByDsKey st) (dataSourcesPrototype st) s)
                       emptyConfig)) \<and>
                  accepted st' = accepted st \<and> resolversByResKey st' = resolversByResKey st)) \<and>
         (s \<notin> set (map fst (dataSourcesByDsKey st)) \<and> CHR ''.'' \<notin> set s \<longrightarrow>
            res = Inl (UnknownDataSource (normalizeResolverKey key) s) \<and> st' = st)"
proof (intro conjI impI)
  assume reg: "s \<in> set (map fst (dataSourcesByDsKey st))"
  let ?d = "getProperty (dataSourcesByDsKey st) (dataSourcesPrototype st) s"
  from map_of_member [OF reg] obtain d where d: "map_of (dataSourcesByDsKey st) s = Some d"
    by blast
  show "\<exists>d. map_of (dataSourcesByDsKey st) s = Some d \<and> ?d = Value d"
    using d getProperty_own [OF d] by blast
  let ?b = "\<lparr>bLambda = None, bDataSource = ?d, bDataSourceKey = s, bResolverProps = emptyConfig\<rparr>"
  have bind: "bindResolver P scope (normalizeResolverKey key) typeName fieldName (ResString s) st =
                (Inr ?b, st)"
    using reg by simp
  have none: "bLambda ?b = None"
    by simp
  note u = storeBinding_unbound [OF none]
  from assms(2) show "functionsByDsKey st' = functionsByDsKey st"
    by (cases rule: addResolver_cases) (use assms(1) bind u in \<open>auto simp: storeBinding_fields\<close>)
  from assms(2) show "dataSourcesByDsKey st' = dataSourcesByDsKey st"
    by (cases rule: addResolver_cases) (use assms(1) bind u in \<open>auto simp: storeBinding_fields\<close>)
  from assms(2) show "functionsPrototype st' = functionsPrototype st"
    by (cases rule: addResolver_cases) (use assms(1) bind u in \<open>auto simp: storeBinding_fields\<close>)
  from assms(2) show "dataSourcesPrototype st' = dataSourcesPrototype st"
    by (cases rule: addResolver_cases) (use assms(1) bind u in \<open>auto simp: storeBinding_fields\<close>)
  from assms(2) show "map_of (dsKeysByResKey st') (normalizeResolverKey key) = Some s"
    by (cases rule: addResolver_cases)
       (use assms(1) bind in \<open>auto simp: storeBinding_fields update_conv'\<close>)
  from assms(2) show "if accepts P (accepted st) (CreateResolver typeName fieldName ?d emptyConfig)
             then res = Inr None \<and>
                  accepted st' = accepted st @ [CreateResolver typeName fieldName ?d emptyConfig] \<and>
                  map_of (resolversByResKey st') (normalizeResolverKey key) =
                    Some \<lparr>resHandle = nextHandle st, resTypeName = typeName,
                          resFieldName = fieldName, resDataSource = ?d,
                          resConfig = emptyConfig\<rparr>
             else res = Inl (ProviderError (CreateResolver typeName fieldName ?d emptyConfig)) \<and>
                  accepted st' = accepted st \<and> resolversByResKey st' = resolversByResKey st"
    by (cases rule: addResolver_cases)
       (use assms(1) bind in \<open>auto simp: storeBinding_fields update_conv'\<close>)
next
  assume "s \<notin> set (map fst (dataSourcesByDsKey st)) \<and> CHR ''.'' \<notin> set s"
  then have bind: "bindResolver P scope (normalizeResolverKey key) typeName fieldName (ResString s) st =
                (Inl (UnknownDataSource (normalizeResolverKey key) s), st)"
    by simp
  from assms(2) show "res = Inl (UnknownDataSource (normalizeResolverKey key) s)"
    by (cases rule: addResolver_cases) (use assms(1) bind in auto)
  from assms(2) show "st' = st"
    by (cases rule: addResolver_cases) (use assms(1) bind in auto)
qed

theorem string_resolver_binding_witness:
  "resolverKeyParts (normalizeResolverKey ''Mutation   charge'') = Inr (''Mutation'', ''charge'') \<and>
   ''billing.main'' \<in> set (map fst (dataSourcesByDsKey billingApi)) \<and>
   CHR ''.'' \<in> set ''billing.main'' \<and>
   fst (addResolver uniqueNames ''stack'' ''Mutation   charge'' (ResString ''billing.main'') billingApi)
     = Inr None \<and>
   functionsByDsKey
     (snd (addResolver uniqueNames ''stack'' ''Mutation   charge'' (ResString ''billing.main'') billingApi))
     = functionsByDsKey billingApi \<and>
   dataSourcesByDsKey
     (snd (addResolver uniqueNames ''stack'' ''Mutation   charge'' (ResString ''billing.main'') billingApi))
     = dataSourcesByDsKey billingApi \<and>
   map_of (dsKeysByResKey
     (snd (addResolver uniqueNames ''stack'' ''Mutation   charge'' (ResString ''billing.main'') billingApi)))
     ''Mutation charge'' = Some ''billing.main'' \<and>
   ''billingDS'' \<notin> set (map fst (dataSourcesByDsKey billingApi)) \<and> CHR ''.'' \<notin> set ''billingDS'' \<and>
   addResolver uniqueNames ''stack'' ''Mutation   charge'' (ResString ''billingDS'') billingApi =
     (Inl (UnknownDataSource ''Mutation charge'' ''billingDS''), billingApi)"
proof -
  have k: "resolverKeyParts (normalizeResolverKey ''Mutation   charge'') = Inr (''Mutation'', ''charge'')"
    by code_simp
  have n: "normalizeResolverKey ''Mutation   charge'' = ''Mutation charge''"
    by code_simp
  have reg: "''billing.main'' \<in> set (map fst (dataSourcesByDsKey billingApi))"
    by code_simp
  have unreg: "''billingDS'' \<notin> set (map fst (dataSourcesByDsKey billingApi))"
    by code_simp
  have dot: "CHR ''.'' \<notin> set ''billingDS''" "CHR ''.'' \<in> set ''billing.main''"
    by simp_all
  have acc: "accepts uniqueNames (accepted billingApi)
               (CreateResolver ''Mutation'' ''charge''
                  (getProperty (dataSourcesByDsKey billingApi) (dataSourcesPrototype billingApi)
                     ''billing.main'') emptyConfig)"
    by code_simp
  note a = string_resolver_binding [where P = uniqueNames and scope = "''stack''"
      and s = "''billing.main''" and st = billingApi, OF k surjective_pairing]
  note b = string_resolver_binding [where P = uniqueNames and scope = "''stack''"
      and s = "''billingDS''" and st = billingApi, OF k surjective_pairing]
  have b': "addResolver uniqueNames ''stack'' ''Mutation   charge'' (ResString ''billingDS'') billingApi =
     (Inl (UnknownDataSource ''Mutation charge'' ''billingDS''), billingApi)"
    using b unreg dot n by (simp add: prod_eq_iff)
  show ?thesis
    using a reg acc k unreg dot b' n by simp
qed

text \<open>
  Claim C10, as amended. Take a resolver whose key is valid and whose value
  is a props object without \<^verbatim>\<open>function\<close>, with a \<^verbatim>\<open>dataSource\<close> that is not
  a key of the registry, and whose templates can be built. The data source of
  the resolver is what the registry object gives under that name: nothing,
  when the name is none that every object inherits. \<^const>\<open>addResolver\<close> binds
  the resolver key to the name, leaves the registries of data sources and
  functions as they are, and makes one request, for the resolver with that
  data source: where the provider accepts it, the call returns no function and
  no error, and the resolver is recorded; where it refuses, its error is the
  only one. The same name as a plain string without a dot fails with
  \<^verbatim>\<open>UnknownDataSource\<close>.
\<close>

theorem props_resolver_unregistered_data_source:
  assumes "resolverKeyParts (normalizeResolverKey key) = Inr (typeName, fieldName)"
    and "rpFunction props = None" and "rpDataSource props = Some k"
    and "k \<notin> set (map fst (dataSourcesByDsKey st))"
    and "buildResolverProps P props = Inr config"
    and "addResolver P scope key (ResProps props) st = (res, st')"
  shows "(dataSourcesPrototype st = None \<and> k \<notin> set objectPrototype \<longrightarrow>
            getProperty (dataSourcesByDsKey st) (dataSourcesPrototype st) k = Undefined) \<and>
         map_of (dsKeysByResKey st') (normalizeResolverKey key) = Some k \<and>
         functionsByDsKey st' = functionsByDsKey st \<and>
         dataSourcesByDsKey st' = dataSourcesByDsKey st \<and>
         functionsPrototype st' = functionsPrototype st \<and>
         dataSourcesPrototype st' = dataSourcesPrototype st \<and>
         (if accepts P (accepted st)
               (CreateResolver typeName fieldName
                  (getProperty (dataSourcesByDsKey st) (dataSourcesPrototype st) k) config)
          then res = Inr None \<and>
               accepted st' = accepted st @
                 [CreateResolver typeName fieldName
                    (getProperty (dataSourcesByDsKey st) (dataSourcesPrototype st) k) config] \<and>
               map_of (resolversByResKey st') (normalizeResolverKey key) =
                 Some \<lparr>resHandle = nextHandle st, resTypeName = typeName,
                       resFieldName = fieldName,
                       resDataSource =
                         getProperty (dataSourcesByDsKey st) (dataSourcesPrototype st) k,
                       resConfig = config\<rparr>
          else res = Inl (ProviderError
                 (CreateResolver typeName fieldName
                    (getProperty (dataSourcesByDsKey st) (dataSourcesPrototype st) k) config)) \<and>
               accepted st' = accepted st \<and> resolversByResKey st' = resolversByResKey st) \<and>
         (CHR ''.'' \<notin> set k \<longrightarrow>
            addResolver P scope key (ResString k) st =
              (Inl (UnknownDataSource (normalizeResolverKey key) k), st))"
proof (intro conjI impI)
  let ?d = "getProperty (dataSourcesByDsKey st) (dataSourcesPrototype st) k"
  have none: "map_of (dataSourcesByDsKey st) k = None"
    using assms(4) by (simp add: map_of_eq_None_iff)
  show "?d = Undefined" if "dataSourcesPrototype st = None \<and> k \<notin> set objectPrototype"
    using that none by (simp add: getProperty_Undefined)
  let ?b = "\<lparr>bLambda = None, bDataSource = ?d, bDataSourceKey = k, bResolverProps = config\<rparr>"
  have bind: "bindResolver P scope (normalizeResolverKey key) typeName fieldName (ResProps props) st =
                (Inr ?b, st)"
    using assms(2,3,5) by simp
  have "bLambda ?b = None"
    by simp
  note u = storeBinding_unbound [OF this]
  from assms(6) show "map_of (dsKeysByResKey st') (normalizeResolverKey key) = Some k"
    by (cases rule: addResolver_cases)
       (use assms(1) bind in \<open>auto simp: storeBinding_fields update_conv'\<close>)
  from assms(6) show "functionsByDsKey st' = functionsByDsKey st"
    by (cases rule: addResolver_cases) (use assms(1) bind u in \<open>auto simp: storeBinding_fields\<close>)
  from assms(6) show "dataSourcesByDsKey st' = dataSourcesByDsKey st"
    by (cases rule: addResolver_cases) (use assms(1) bind u in \<open>auto simp: storeBinding_fields\<close>)
  from assms(6) show "functionsPrototype st' = functionsPrototype st"
    by (cases rule: addResolver_cases) (use assms(1) bind u in \<open>auto simp: storeBinding_fields\<close>)
  from assms(6) show "dataSourcesPrototype st' = dataSourcesPrototype st"
    by (cases rule: addResolver_cases) (use assms(1) bind u in \<open>auto simp: storeBinding_fields\<close>)
  from assms(6) show "if accepts P (accepted st) (CreateResolver typeName fieldName ?d config)
          then res = Inr None \<and>
               accepted st' = accepted st @ [CreateResolver typeName fieldName ?d config] \<and>
               map_of (resolversByResKey st') (normalizeResolverKey key) =
                 Some \<lparr>resHandle = nextHandle st, resTypeName = typeName,
                       resFieldName = fieldName, resDataSource = ?d, resConfig = config\<rparr>
          else res = Inl (ProviderError (CreateResolver typeName fieldName ?d config)) \<and>
               accepted st' = accepted st \<and> resolversByResKey st' = resolversByResKey st"
    by (cases rule: addResolver_cases)
       (use assms(1) bind in \<open>auto simp: storeBinding_fields update_conv'\<close>)
next
  assume "CHR ''.'' \<notin> set k"
  then have "bindResolver P scope (normalizeResolverKey key) typeName fieldName (ResString k) st =
               (Inl (UnknownDataSource (normalizeResolverKey key) k), st)"
    using assms(4) by simp
  then show "addResolver P scope key (ResString k) st =
               (Inl (UnknownDataSource (normalizeResolverKey key) k), st)"
    using assms(1) by (rule addResolver_unbound [rotated])
qed

theorem props_resolver_unregistered_data_source_witness:
  "resolverKeyParts (normalizeResolverKey ''Query getNote'') = Inr (''Query'', ''getNote'') \<and>
   rpFunction dataSourceOnly = None \<and> rpDataSource dataSourceOnly = Some ''notesDS'' \<and>
   ''notesDS'' \<notin> set (map fst (dataSourcesByDsKey plainApi)) \<and>
   dataSourcesPrototype plainApi = None \<and> ''notesDS'' \<notin> set objectPrototype \<and>
   getProperty (dataSourcesByDsKey plainApi) (dataSourcesPrototype plainApi) ''notesDS'' =
     Undefined \<and>
   fst (addResolver uniqueNames ''stack'' ''Query getNote'' (ResProps dataSourceOnly) plainApi) =
     Inr None \<and>
   map_of (dsKeysByResKey
      (snd (addResolver uniqueNames ''stack'' ''Query getNote'' (ResProps dataSourceOnly) plainApi)))
     (normalizeResolverKey ''Query getNote'') = Some ''notesDS'' \<and>
   addResolver uniqueNames ''stack'' ''Query getNote'' (ResString ''notesDS'') plainApi =
     (Inl (UnknownDataSource (normalizeResolverKey ''Query getNote'') ''notesDS''), plainApi)"
proof -
  let ?config = "\<lparr>requestMappingTemplate = Some (FileTemplate ''request.vtl'' ''{}''),
                  responseMappingTemplate = Some (StringTemplate (Some ''$util.toJson($ctx.result)'')),
                  otherConfig = None\<rparr>"
  let ?st' = "snd (addResolver uniqueNames ''stack'' ''Query getNote'' (ResProps dataSourceOnly)
                     plainApi)"
  have k: "resolverKeyParts (normalizeResolverKey ''Query getNote'') = Inr (''Query'', ''getNote'')"
    by code_simp
  have f: "rpFunction dataSourceOnly = None" and d: "rpDataSource dataSourceOnly = Some ''notesDS''"
    by (simp_all add: dataSourceOnly_def)
  have unreg: "''notesDS'' \<notin> set (map fst (dataSourcesByDsKey plainApi))"
    by code_simp
  have plain: "dataSourcesPrototype plainApi = None \<and> ''notesDS'' \<notin> set objectPrototype"
    by code_simp
  have c: "buildResolverProps uniqueNames dataSourceOnly = Inr ?config"
    by code_simp
  have acc: "accepts uniqueNames (accepted plainApi)
               (CreateResolver ''Query'' ''getNote'' Undefined ?config)"
    by code_simp
  have dot: "CHR ''.'' \<notin> set ''notesDS''"
    by simp
  note a = props_resolver_unregistered_data_source
    [where scope = "''stack''" and st = plainApi, OF k f d unreg c surjective_pairing]
  have u: "getProperty (dataSourcesByDsKey plainApi) (dataSourcesPrototype plainApi) ''notesDS'' =
             Undefined"
    using a plain by blast
  have r: "fst (addResolver uniqueNames ''stack'' ''Query getNote'' (ResProps dataSourceOnly)
                  plainApi) = Inr None"
    using a acc unfolding u by simp
  have i: "map_of (dsKeysByResKey ?st') (normalizeResolverKey ''Query getNote'') = Some ''notesDS''"
    using a by blast
  have s: "addResolver uniqueNames ''stack'' ''Query getNote'' (ResString ''notesDS'') plainApi =
     (Inl (UnknownDataSource (normalizeResolverKey ''Query getNote'') ''notesDS''), plainApi)"
    using a dot by blast
  show ?thesis
    using k f d unreg plain u r i s by simp
qed

text \<open>
  Claim C10 as stated speaks of every props object whose \<^verbatim>\<open>dataSource\<close> is
  not registered. When the object also has \<^verbatim>\<open>function\<close>, that field is
  looked at first: a function is created and returned, and the resolver key is
  bound to the derived key, not to the one named. And when the name is one
  that every object inherits, such as \<^verbatim>\<open>constructor\<close>, the resolver is
  requested with that member of \<^verbatim>\<open>Object.prototype\<close> for its data source,
  which the provider of unique names refuses: the call fails.
\<close>

theorem props_with_function_creates_function:
  "rpDataSource functionAndDataSource = Some ''notesDS'' \<and>
   ''notesDS'' \<notin> set (map fst (dataSourcesByDsKey plainApi)) \<and>
   fst (addResolver uniqueNames ''stack'' ''Query getNote'' (ResProps functionAndDataSource) plainApi) =
     Inr (Some 1) \<and>
   map_of (dsKeysByResKey
      (snd (addResolver uniqueNames ''stack'' ''Query getNote'' (ResProps functionAndDataSource) plainApi)))
      ''Query getNote'' = Some ''LambdaDS_Query_getNote'' \<and>
   rpDataSource inheritedDataSource = Some ''constructor'' \<and>
   rpFunction inheritedDataSource = None \<and>
   ''constructor'' \<notin> set (map fst (dataSourcesByDsKey plainApi)) \<and>
   fst (addResolver uniqueNames ''stack'' ''Query getNote'' (ResProps inheritedDataSource) plainApi) =
     Inl (ProviderError
            (CreateResolver ''Query'' ''getNote'' (Inherited ''constructor'') emptyConfig))"
  by code_simp

section \<open>Lookups\<close>

lemma normalizeResolverKey_no_space:
  "CHR '' '' \<notin> set (normalizeResolverKey x) \<Longrightarrow> normalizeResolverKey x = x"
proof (induction x rule: splitWhitespace.induct)
  case 1
  show ?case by (simp add: normalizeResolverKey_Nil)
next
  case (2 c cs)
  show ?case
  proof (cases "isWhitespace c")
    case True
    with "2.prems" show ?thesis
      by (simp add: normalizeResolverKey_Cons)
  next
    case False
    with "2.prems" have "CHR '' '' \<notin> set (normalizeResolverKey cs)"
      by (simp add: normalizeResolverKey_Cons)
    with "2.IH"(2) False show ?thesis
      by (simp add: normalizeResolverKey_Cons)
  qed
qed

lemma normalizeResolverKey_inherited:
  "normalizeResolverKey key \<in> set objectPrototype \<Longrightarrow> key \<in> set objectPrototype"
proof -
  assume a: "normalizeResolverKey key \<in> set objectPrototype"
  then have "CHR '' '' \<notin> set (normalizeResolverKey key)"
    by (auto simp: objectPrototype_def)
  from normalizeResolverKey_no_space [OF this] a show ?thesis
    by simp
qed

lemma boundKey_bound:
  "map_of (dsKeysByResKey st) resKey = Some k \<Longrightarrow> boundKey st resKey = k"
  by (simp add: boundKey_def getProperty_def)

lemma boundKey_unbound:
  "map_of (dsKeysByResKey st) resKey = None \<Longrightarrow> resKey \<notin> set objectPrototype \<Longrightarrow>
     boundKey st resKey = ''undefined''"
  by (simp add: boundKey_def getProperty_def)

lemma getFunction_miss:
  "getProperty (functionsByDsKey st) (functionsPrototype st) key = Undefined \<Longrightarrow>
     getFunction P st key =
       getProperty (functionsByDsKey st) (functionsPrototype st)
         (boundKey st (normalizeResolverKey key))"
  by (simp add: getFunction_def)

lemma getDataSource_miss:
  "getProperty (dataSourcesByDsKey st) (dataSourcesPrototype st) key = Undefined \<Longrightarrow>
     getDataSource P st key =
       getProperty (dataSourcesByDsKey st) (dataSourcesPrototype st)
         (boundKey st (normalizeResolverKey key))"
  by (simp add: getDataSource_def)

lemma getFunction_own:
  "map_of (functionsByDsKey st) key = Some fn \<Longrightarrow> getFunction P st key = Value fn"
  by (simp add: getFunction_def getProperty_def)

lemma getDataSource_own:
  "map_of (dataSourcesByDsKey st) key = Some ds \<Longrightarrow> getDataSource P st key = Value ds"
  by (simp add: getDataSource_def getProperty_def)

lemma missed_unbound:
  assumes "getProperty own proto key = Undefined"
    and "map_of (dsKeysByResKey st) (normalizeResolverKey key) = None"
  shows "boundKey st (normalizeResolverKey key) = ''undefined''"
proof -
  have "key \<notin> set objectPrototype"
    using assms(1) by (simp add: getProperty_Undefined)
  then have "normalizeResolverKey key \<notin> set objectPrototype"
    using normalizeResolverKey_inherited by blast
  with assms(2) show ?thesis
    by (rule boundKey_unbound)
qed

text \<open>
  Claim C3, as amended. \<^const>\<open>getFunction\<close> and \<^const>\<open>getDataSource\<close> try the
  key as it is, and a key of the registry gives its entry. The first hop
  misses when the key is no key of the registry and no name that every object
  inherits. Then the key is normalized and looked up in the index of resolver
  keys, and the data-source key found there is looked up in the registry: a
  key of the registry gives its entry, and a key that is none, and no
  inherited name, gives nothing. A miss in the index gives nothing when no
  data source has the key \<^verbatim>\<open>undefined\<close>. For a resolver bound to \<open>k\<close> whose
  own key misses in the first hop and where \<open>k\<close> is registered, the resolver
  key and \<open>k\<close> give the same handle; two resolver keys bound to the same
  \<open>k\<close>, both missing in the first hop, give the same result.
\<close>

theorem two_hop_lookup:
  "(map_of (functionsByDsKey st) key = Some fn \<longrightarrow> getFunction P st key = Value fn) \<and>
   (functionsPrototype st = None \<and> map_of (functionsByDsKey st) key = None \<and>
    key \<notin> set objectPrototype \<longrightarrow>
      getProperty (functionsByDsKey st) (functionsPrototype st) key = Undefined) \<and>
   (getProperty (functionsByDsKey st) (functionsPrototype st) key = Undefined \<and>
    map_of (dsKeysByResKey st) (normalizeResolverKey key) = Some k \<longrightarrow>
      getFunction P st key = getProperty (functionsByDsKey st) (functionsPrototype st) k \<and>
      (map_of (functionsByDsKey st) k = None \<and> k \<notin> set objectPrototype \<longrightarrow>
         getFunction P st key = Undefined)) \<and>
   (getProperty (functionsByDsKey st) (functionsPrototype st) key = Undefined \<and>
    map_of (dsKeysByResKey st) (normalizeResolverKey key) = None \<and>
    map_of (functionsByDsKey st) ''undefined'' = None \<longrightarrow>
      getFunction P st key = Undefined) \<and>
   (map_of (dataSourcesByDsKey st) key = Some ds \<longrightarrow> getDataSource P st key = Value ds) \<and>
   (dataSourcesPrototype st = None \<and> map_of (dataSourcesByDsKey st) key = None \<and>
    key \<notin> set objectPrototype \<longrightarrow>
      getProperty (dataSourcesByDsKey st) (dataSourcesPrototype st) key = Undefined) \<and>
   (getProperty (dataSourcesByDsKey st) (dataSourcesPrototype st) key = Undefined \<and>
    map_of (dsKeysByResKey st) (normalizeResolverKey key) = Some k \<longrightarrow>
      getDataSource P st key = getProperty (dataSourcesByDsKey st) (dataSourcesPrototype st) k \<and>
      (map_of (dataSourcesByDsKey st) k = None \<and> k \<notin> set objectPrototype \<longrightarrow>
         getDataSource P st key = Undefined)) \<and>
   (getProperty (dataSourcesByDsKey st) (dataSourcesPrototype st) key = Undefined \<and>
    map_of (dsKeysByResKey st) (normalizeResolverKey key) = None \<and>
    map_of (dataSourcesByDsKey st) ''undefined'' = None \<longrightarrow>
      getDataSource P st key = Undefined) \<and>
   (map_of (dsKeysByResKey st) (normalizeResolverKey key) = Some k \<and>
    getProperty (functionsByDsKey st) (functionsPrototype st) key = Undefined \<and>
    map_of (functionsByDsKey st) k = Some fn \<longrightarrow>
      getFunction P st key = Value fn \<and> getFunction P st k = Value fn) \<and>
   (map_of (dsKeysByResKey st) (normalizeResolverKey key) = Some k \<and>
    getProperty (dataSourcesByDsKey st) (dataSourcesPrototype st) key = Undefined \<and>
    map_of (dataSourcesByDsKey st) k = Some ds \<longrightarrow>
      getDataSource P st key = Value ds \<and> getDataSource P st k = Value ds) \<and>
   (map_of (dsKeysByResKey st) (normalizeResolverKey key) = Some k \<and>
    map_of (dsKeysByResKey st) (normalizeResolverKey key') = Some k \<and>
    getProperty (functionsByDsKey st) (functionsPrototype st) key = Undefined \<and>
    getProperty (functionsByDsKey st) (functionsPrototype st) key' = Undefined \<longrightarrow>
      getFunction P st key = getFunction P st key') \<and>
   (map_of (dsKeysByResKey st) (normalizeResolverKey key) = Some k \<and>
    map_of (dsKeysByResKey st) (normalizeResolverKey key') = Some k \<and>
    getProperty (dataSourcesByDsKey st) (dataSourcesPrototype st) key = Undefined \<and>
    getProperty (dataSourcesByDsKey st) (dataSourcesPrototype st) key' = Undefined \<longrightarrow>
      getDataSource P st key = getDataSource P st key')"
proof -
  let ?F = "functionsByDsKey st" and ?FP = "functionsPrototype st"
  let ?D = "dataSourcesByDsKey st" and ?DP = "dataSourcesPrototype st"
  let ?I = "dsKeysByResKey st"
  have f1: "getFunction P st key = Value fn" if "map_of ?F key = Some fn"
    using that by (rule getFunction_own)
  have f2: "getProperty ?F ?FP key = Undefined"
    if "?FP = None \<and> map_of ?F key = None \<and> key \<notin> set objectPrototype"
    using that by (simp add: getProperty_Undefined)
  have f3: "getFunction P st x = getProperty ?F ?FP k"
    if "getProperty ?F ?FP x = Undefined" "map_of ?I (normalizeResolverKey x) = Some k" for x
    using that by (simp add: getFunction_miss boundKey_bound)
  have f3': "getProperty ?F ?FP k = Undefined"
    if "getProperty ?F ?FP key = Undefined" "map_of ?F k = None \<and> k \<notin> set objectPrototype"
    using that by (simp add: getProperty_Undefined)
  have f4: "getFunction P st key = Undefined"
    if "getProperty ?F ?FP key = Undefined" "map_of ?I (normalizeResolverKey key) = None"
      "map_of ?F ''undefined'' = None"
  proof -
    have "getProperty ?F ?FP ''undefined'' = Undefined"
      using that(1,3) by (simp add: getProperty_Undefined objectPrototype_def)
    then show ?thesis
      using that(1) missed_unbound [OF that(1,2)] by (simp add: getFunction_miss)
  qed
  have d1: "getDataSource P st key = Value ds" if "map_of ?D key = Some ds"
    using that by (rule getDataSource_own)
  have d2: "getProperty ?D ?DP key = Undefined"
    if "?DP = None \<and> map_of ?D key = None \<and> key \<notin> set objectPrototype"
    using that by (simp add: getProperty_Undefined)
  have d3: "getDataSource P st x = getProperty ?D ?DP k"
    if "getProperty ?D ?DP x = Undefined" "map_of ?I (normalizeResolverKey x) = Some k" for x
    using that by (simp add: getDataSource_miss boundKey_bound)
  have d3': "getProperty ?D ?DP k = Undefined"
    if "getProperty ?D ?DP key = Undefined" "map_of ?D k = None \<and> k \<notin> set objectPrototype"
    using that by (simp add: getProperty_Undefined)
  have d4: "getDataSource P st key = Undefined"
    if "getProperty ?D ?DP key = Undefined" "map_of ?I (normalizeResolverKey key) = None"
      "map_of ?D ''undefined'' = None"
  proof -
    have "getProperty ?D ?DP ''undefined'' = Undefined"
      using that(1,3) by (simp add: getProperty_Undefined objectPrototype_def)
    then show ?thesis
      using that(1) missed_unbound [OF that(1,2)] by (simp add: getDataSource_miss)
  qed
  have f5: "getFunction P st key = Value fn \<and> getFunction P st k = Value fn"
    if "map_of ?I (normalizeResolverKey key) = Some k" "getProperty ?F ?FP key = Undefined"
      "map_of ?F k = Some fn"
    using f3 [OF that(2,1)] getProperty_own [OF that(3)] getFunction_own [OF that(3)] by simp
  have d5: "getDataSource P st key = Value ds \<and> getDataSource P st k = Value ds"
    if "map_of ?I (normalizeResolverKey key) = Some k" "getProperty ?D ?DP key = Undefined"
      "map_of ?D k = Some ds"
    using d3 [OF that(2,1)] getProperty_own [OF that(3)] getDataSource_own [OF that(3)] by simp
  have f6: "getFunction P st key = getFunction P st key'"
    if "map_of ?I (normalizeResolverKey key) = Some k" "map_of ?I (normalizeResolverKey key') = Some k"
      "getProperty ?F ?FP key = Undefined" "getProperty ?F ?FP key' = Undefined"
    using f3 [OF that(3,1)] f3 [OF that(4,2)] by simp
  have d6: "getDataSource P st key = getDataSource P st key'"
    if "map_of ?I (normalizeResolverKey key) = Some k" "map_of ?I (normalizeResolverKey key') = Some k"
      "getProperty ?D ?DP key = Undefined" "getProperty ?D ?DP key' = Undefined"
    using d3 [OF that(3,1)] d3 [OF that(4,2)] by simp
  have c1: "map_of ?F key = Some fn \<longrightarrow> getFunction P st key = Value fn"
    using f1 by simp
  have c2: "?FP = None \<and> map_of ?F key = None \<and> key \<notin> set objectPrototype \<longrightarrow>
        getProperty ?F ?FP key = Undefined"
    using f2 by simp
  have c3: "getProperty ?F ?FP key = Undefined \<and> map_of ?I (normalizeResolverKey key) = Some k \<longrightarrow>
        getFunction P st key = getProperty ?F ?FP k \<and>
        (map_of ?F k = None \<and> k \<notin> set objectPrototype \<longrightarrow> getFunction P st key = Undefined)"
  proof (intro impI conjI; elim conjE)
    assume a: "getProperty ?F ?FP key = Undefined" "map_of ?I (normalizeResolverKey key) = Some k"
    from f3 [OF a] show "getFunction P st key = getProperty ?F ?FP k" .
    assume "map_of ?F k = None" "k \<notin> set objectPrototype"
    then have "getProperty ?F ?FP k = Undefined"
      using f3' [OF a(1)] by simp
    with f3 [OF a] show "getFunction P st key = Undefined" by simp
  qed
  have c4: "getProperty ?F ?FP key = Undefined \<and> map_of ?I (normalizeResolverKey key) = None \<and>
      map_of ?F ''undefined'' = None \<longrightarrow> getFunction P st key = Undefined"
    using f4 by simp
  have c5: "map_of ?D key = Some ds \<longrightarrow> getDataSource P st key = Value ds"
    using d1 by simp
  have c6: "?DP = None \<and> map_of ?D key = None \<and> key \<notin> set objectPrototype \<longrightarrow>
        getProperty ?D ?DP key = Undefined"
    using d2 by simp
  have c7: "getProperty ?D ?DP key = Undefined \<and> map_of ?I (normalizeResolverKey key) = Some k \<longrightarrow>
        getDataSource P st key = getProperty ?D ?DP k \<and>
        (map_of ?D k = None \<and> k \<notin> set objectPrototype \<longrightarrow> getDataSource P st key = Undefined)"
  proof (intro impI conjI; elim conjE)
    assume a: "getProperty ?D ?DP key = Undefined" "map_of ?I (normalizeResolverKey key) = Some k"
    from d3 [OF a] show "getDataSource P st key = getProperty ?D ?DP k" .
    assume "map_of ?D k = None" "k \<notin> set objectPrototype"
    then have "getProperty ?D ?DP k = Undefined"
      using d3' [OF a(1)] by simp
    with d3 [OF a] show "getDataSource P st key = Undefined" by simp
  qed
  have c8: "getProperty ?D ?DP key = Undefined \<and> map_of ?I (normalizeResolverKey key) = None \<and>
      map_of ?D ''undefined'' = None \<longrightarrow> getDataSource P st key = Undefined"
    using d4 by simp
  have c9: "map_of ?I (normalizeResolverKey key) = Some k \<and>
      getProperty ?F ?FP key = Undefined \<and> map_of ?F k = Some fn \<longrightarrow>
        getFunction P st key = Value fn \<and> getFunction P st k = Value fn"
    using f5 by simp
  have c10: "map_of ?I (normalizeResolverKey key) = Some k \<and>
      getProperty ?D ?DP key = Undefined \<and> map_of ?D k = Some ds \<longrightarrow>
        getDataSource P st key = Value ds \<and> getDataSource P st k = Value ds"
    using d5 by simp
  have c11: "map_of ?I (normalizeResolverKey key) = Some k \<and>
      map_of ?I (normalizeResolverKey key') = Some k \<and>
      getProperty ?F ?FP key = Undefined \<and> getProperty ?F ?FP key' = Undefined \<longrightarrow>
        getFunction P st key = getFunction P st key'"
    using f6 by simp
  have c12: "map_of ?I (normalizeResolverKey key) = Some k \<and>
      map_of ?I (normalizeResolverKey key') = Some k \<and>
      getProperty ?D ?DP key = Undefined \<and> getProperty ?D ?DP key' = Undefined \<longrightarrow>
        getDataSource P st key = getDataSource P st key'"
    using d6 by simp
  show ?thesis
    by (intro conjI c1 c2 c3 c4 c5 c6 c7 c8 c9 c10 c11 c12)
qed

theorem two_hop_lookup_witness:
  "map_of (dsKeysByResKey notesApi) (normalizeResolverKey ''Query   listNotes'') = Some ''notesDS'' \<and>
   map_of (dsKeysByResKey notesApi) (normalizeResolverKey ''Mutation createNote'') = Some ''notesDS'' \<and>
   functionsPrototype notesApi = None \<and>
   map_of (functionsByDsKey notesApi) ''Query   listNotes'' = None \<and>
   ''Query   listNotes'' \<notin> set objectPrototype \<and>
   getProperty (functionsByDsKey notesApi) (functionsPrototype notesApi) ''Query   listNotes'' =
     Undefined \<and>
   getProperty (functionsByDsKey notesApi) (functionsPrototype notesApi) ''Mutation createNote'' =
     Undefined \<and>
   map_of (functionsByDsKey notesApi) ''notesDS'' = Some 1 \<and>
   getFunction uniqueNames notesApi ''Query   listNotes'' = Value 1 \<and>
   getFunction uniqueNames notesApi ''notesDS'' = Value 1 \<and>
   getFunction uniqueNames notesApi ''Query   listNotes'' =
     getFunction uniqueNames notesApi ''Mutation createNote''"
proof -
  have h: "map_of (dsKeysByResKey notesApi) (normalizeResolverKey ''Query   listNotes'') =
             Some ''notesDS''"
    "map_of (dsKeysByResKey notesApi) (normalizeResolverKey ''Mutation createNote'') =
             Some ''notesDS''"
    "functionsPrototype notesApi = None \<and>
     map_of (functionsByDsKey notesApi) ''Query   listNotes'' = None \<and>
     ''Query   listNotes'' \<notin> set objectPrototype"
    "getProperty (functionsByDsKey notesApi) (functionsPrototype notesApi) ''Mutation createNote'' =
       Undefined"
    "map_of (functionsByDsKey notesApi) ''notesDS'' = Some 1"
    by code_simp+
  note a = two_hop_lookup
    [where st = notesApi and key = "''Query   listNotes''" and k = "''notesDS''"
       and key' = "''Mutation createNote''" and fn = 1 and P = uniqueNames
       and ds = "\<lparr>dsHandle = 2, dsKey = ''notesDS'', dsBacking = LambdaBacking 1,
                  dsName = None, dsDescription = None\<rparr>"]
  note a2 = a [THEN conjunct2, THEN conjunct1]
  note a9 = a [THEN conjunct2, THEN conjunct2, THEN conjunct2, THEN conjunct2, THEN conjunct2,
      THEN conjunct2, THEN conjunct2, THEN conjunct2, THEN conjunct1]
  note a11 = a [THEN conjunct2, THEN conjunct2, THEN conjunct2, THEN conjunct2, THEN conjunct2,
      THEN conjunct2, THEN conjunct2, THEN conjunct2, THEN conjunct2, THEN conjunct2,
      THEN conjunct1]
  have m: "getProperty (functionsByDsKey notesApi) (functionsPrototype notesApi)
             ''Query   listNotes'' = Undefined"
    using a2 h(3) by (rule mp)
  have "map_of (dsKeysByResKey notesApi) (normalizeResolverKey ''Query   listNotes'') =
          Some ''notesDS'' \<and>
        getProperty (functionsByDsKey notesApi) (functionsPrototype notesApi)
          ''Query   listNotes'' = Undefined \<and>
        map_of (functionsByDsKey notesApi) ''notesDS'' = Some 1"
    using h(1) m h(5) by (intro conjI)
  with a9 have 1: "getFunction uniqueNames notesApi ''Query   listNotes'' = Value 1 \<and>
           getFunction uniqueNames notesApi ''notesDS'' = Value 1"
    by (rule mp)
  have "map_of (dsKeysByResKey notesApi) (normalizeResolverKey ''Query   listNotes'') =
          Some ''notesDS'' \<and>
        map_of (dsKeysByResKey notesApi) (normalizeResolverKey ''Mutation createNote'') =
          Some ''notesDS'' \<and>
        getProperty (functionsByDsKey notesApi) (functionsPrototype notesApi)
          ''Query   listNotes'' = Undefined \<and>
        getProperty (functionsByDsKey notesApi) (functionsPrototype notesApi)
          ''Mutation createNote'' = Undefined"
    using h(1,2) m h(4) by (intro conjI)
  with a11 have 2: "getFunction uniqueNames notesApi ''Query   listNotes'' =
             getFunction uniqueNames notesApi ''Mutation createNote''"
    by (rule mp)
  show ?thesis
    using h m 1 2 by (intro conjI) simp_all
qed

text \<open>
  Claim C3 as stated says that the key of a resolver bound to \<open>K\<close> and \<open>K\<close>
  itself always give the same handle, and that a miss gives nothing. The key
  is tried as a data-source key first: where a data source has the key
  \<^verbatim>\<open>Query listNotes\<close>, the resolver of that name, bound to \<^verbatim>\<open>notesDS\<close>, gives
  the function of the former. And the registries are objects: on a construct
  without any entry, \<^verbatim>\<open>constructor\<close> and \<^verbatim>\<open>toString\<close> are no keys of the
  registry or of the index, yet the lookups give the members of
  \<^verbatim>\<open>Object.prototype\<close> of these names.
\<close>

theorem lookup_prefers_literal_key:
  "fst (construct uniqueNames ''stack'' ''Api'' collisionProps) = None \<and>
   map_of (dsKeysByResKey collisionApi) (normalizeResolverKey ''Query listNotes'') =
     Some ''notesDS'' \<and>
   getFunction uniqueNames collisionApi ''Query listNotes'' = Value 3 \<and>
   getFunction uniqueNames collisionApi ''notesDS'' = Value 1 \<and>
   dataSourcesByDsKey plainApi = [] \<and> functionsByDsKey plainApi = [] \<and>
   dsKeysByResKey plainApi = [] \<and>
   getFunction uniqueNames plainApi ''constructor'' = Inherited ''constructor'' \<and>
   getDataSource uniqueNames plainApi ''toString'' = Inherited ''toString''"
  by code_simp

section \<open>Failed batches\<close>

lemma addResolver_Inr_registered:
  assumes "addResolver P scope key resValue st = (Inr lambda, st')"
  shows "normalizeResolverKey key \<in> set (map fst (resolversByResKey st')) \<and>
         normalizeResolverKey key \<in> set (map fst (dsKeysByResKey st'))"
  using assms
  by (cases rule: addResolver_cases) (auto simp: storeBinding_fields map_fst_update)

text \<open>
  What an entry that fails leaves: no resolver, and nothing at all unless the
  provider refused its resolver. Then the writes of lines 832-837 have been
  made: the index has the entry of this resolver key, and the registries of
  data-source keys have, if a function was created, those of the derived key.
\<close>

lemma addResolver_Inl_effect:
  assumes "addResolver P scope key resValue st = (Inl e, st')"
  shows "resolversByResKey st' = resolversByResKey st \<and>
         functionsPrototype st' = functionsPrototype st \<and>
         dataSourcesPrototype st' = dataSourcesPrototype st \<and>
         (\<forall>k. k \<noteq> normalizeResolverKey key \<longrightarrow>
              map_of (dsKeysByResKey st') k = map_of (dsKeysByResKey st) k) \<and>
         (\<forall>k. Some k \<noteq> derivedKey key \<longrightarrow>
              map_of (functionsByDsKey st') k = map_of (functionsByDsKey st) k \<and>
              map_of (dataSourcesByDsKey st') k = map_of (dataSourcesByDsKey st) k) \<and>
         ((\<forall>t f d c. e \<noteq> ProviderError (CreateResolver t f d c)) \<longrightarrow>
            registries st' = registries st)"
  using assms
proof (cases rule: addResolver_cases)
  case (invalid e)
  then show ?thesis by simp
next
  case (unbound typeName fieldName e)
  then show ?thesis
    using bindResolver_frame [OF unbound(2)]
    by (simp add: outsideProvider_def registries_def)
next
  case (refused typeName fieldName b st1)
  note f = outsideProvider_fields [OF bindResolver_frame [OF refused(2)]]
  note s = bindResolver_store [OF refused(2)]
  have d: "derivedKey key = Some (buildDataSourceKey typeName fieldName)"
    using refused(1) by (simp add: derivedKey_def)
  have 1: "resolversByResKey st' = resolversByResKey st"
    unfolding refused(5) using f by (simp add: storeBinding_fields)
  have 2: "map_of (dsKeysByResKey st') k = map_of (dsKeysByResKey st) k"
    if "k \<noteq> normalizeResolverKey key" for k
    unfolding refused(5) using f that by (simp add: storeBinding_fields update_conv')
  have 3: "map_of (functionsByDsKey st') k = map_of (functionsByDsKey st) k \<and>
           map_of (dataSourcesByDsKey st') k = map_of (dataSourcesByDsKey st) k"
    if "Some k \<noteq> derivedKey key" for k
  proof (cases "bLambda b")
    case None
    from s(3) [OF None] show ?thesis
      unfolding refused(5) by simp
  next
    case (Some fn)
    from s(4) [OF Some] that d show ?thesis
      unfolding refused(5) by (auto simp: update_conv')
  qed
  show ?thesis
    using 1 2 3 s(1,2) refused(4,5) by simp
next
  case (created typeName fieldName b st1)
  then show ?thesis by simp
qed

lemma addResolvers_split:
  "addResolvers P scope batch st = (Some e, st') \<Longrightarrow>
     \<exists>earlier key resValue rest st1.
        batch = earlier @ (key, resValue) # rest \<and>
        addResolvers P scope earlier st = (None, st1) \<and>
        addResolver P scope key resValue st1 = (Inl e, st') \<and>
        list_all (\<lambda>entry. normalizeResolverKey (fst entry) \<in> set (map fst (resolversByResKey st1)) \<and>
                          normalizeResolverKey (fst entry) \<in> set (map fst (dsKeysByResKey st1)))
          earlier"
proof (induction batch arbitrary: st)
  case Nil
  then show ?case by simp
next
  case (Cons entry batch)
  obtain key resValue where entry: "entry = (key, resValue)" by (cases entry)
  obtain res sta where step: "addResolver P scope key resValue st = (res, sta)"
    by (cases "addResolver P scope key resValue st")
  show ?case
  proof (cases res)
    case (Inl e')
    with Cons.prems entry step have e: "e' = e" "sta = st'" by simp_all
    have a: "addResolver P scope key resValue st = (Inl e, st')"
      using step Inl e by simp
    have "entry # batch = [] @ (key, resValue) # batch \<and>
        addResolvers P scope [] st = (None, st) \<and>
        addResolver P scope key resValue st = (Inl e, st') \<and>
        list_all (\<lambda>entry. normalizeResolverKey (fst entry) \<in> set (map fst (resolversByResKey st)) \<and>
                          normalizeResolverKey (fst entry) \<in> set (map fst (dsKeysByResKey st))) []"
      using a entry by simp
    then show ?thesis by blast
  next
    case (Inr lambda)
    let ?stb = "replayPermissions lambda sta"
    have a: "addResolver P scope key resValue st = (Inr lambda, sta)"
      using step Inr by simp
    have rest: "addResolvers P scope batch ?stb = (Some e, st')"
      using Cons.prems entry a by simp
    from Cons.IH [OF rest] obtain earlier k v post st1 where
      ih: "batch = earlier @ (k, v) # post"
        "addResolvers P scope earlier ?stb = (None, st1)"
        "addResolver P scope k v st1 = (Inl e, st')"
        "list_all (\<lambda>entry. normalizeResolverKey (fst entry) \<in> set (map fst (resolversByResKey st1)) \<and>
                          normalizeResolverKey (fst entry) \<in> set (map fst (dsKeysByResKey st1))) earlier"
      by blast
    have "retainsKeys sta st1"
      using retainsKeys_replay addResolvers_retainsKeys [OF ih(2)] retainsKeys_trans by blast
    then have here: "normalizeResolverKey key \<in> set (map fst (resolversByResKey st1)) \<and>
                normalizeResolverKey key \<in> set (map fst (dsKeysByResKey st1))"
      using addResolver_Inr_registered [OF a] by (auto simp: retainsKeys_def)
    have "entry # batch = (entry # earlier) @ (k, v) # post \<and>
        addResolvers P scope (entry # earlier) st = (None, st1) \<and>
        addResolver P scope k v st1 = (Inl e, st') \<and>
        list_all (\<lambda>entry. normalizeResolverKey (fst entry) \<in> set (map fst (resolversByResKey st1)) \<and>
                          normalizeResolverKey (fst entry) \<in> set (map fst (dsKeysByResKey st1)))
          (entry # earlier)"
      using ih here entry a by simp
    then show ?thesis by blast
  qed
qed

lemma addResolvers_failed:
  assumes "addResolvers P scope batch st = (Some e, st')"
  shows "\<exists>earlier key resValue rest st1.
        batch = earlier @ (key, resValue) # rest \<and>
        addResolvers P scope earlier st = (None, st1) \<and>
        addResolver P scope key resValue st1 = (Inl e, st') \<and>
        list_all (\<lambda>entry. normalizeResolverKey (fst entry) \<in> set (map fst (resolversByResKey st')) \<and>
                          normalizeResolverKey (fst entry) \<in> set (map fst (dsKeysByResKey st')))
          earlier \<and>
        resolversByResKey st' = resolversByResKey st1 \<and>
        functionsPrototype st' = functionsPrototype st1 \<and>
        dataSourcesPrototype st' = dataSourcesPrototype st1 \<and>
        (\<forall>k. k \<noteq> normalizeResolverKey key \<longrightarrow>
             map_of (dsKeysByResKey st') k = map_of (dsKeysByResKey st1) k) \<and>
        (\<forall>k. Some k \<noteq> derivedKey key \<longrightarrow>
             map_of (functionsByDsKey st') k = map_of (functionsByDsKey st1) k \<and>
             map_of (dataSourcesByDsKey st') k = map_of (dataSourcesByDsKey st1) k) \<and>
        ((\<forall>t f d c. e \<noteq> ProviderError (CreateResolver t f d c)) \<longrightarrow>
           registries st' = registries st1)"
proof -
  from addResolvers_split [OF assms] obtain earlier key resValue rest st1 where
    s: "batch = earlier @ (key, resValue) # rest"
      "addResolvers P scope earlier st = (None, st1)"
      "addResolver P scope key resValue st1 = (Inl e, st')"
      "list_all (\<lambda>entry. normalizeResolverKey (fst entry) \<in> set (map fst (resolversByResKey st1)) \<and>
                        normalizeResolverKey (fst entry) \<in> set (map fst (dsKeysByResKey st1)))
         earlier"
    by blast
  note k = addResolver_retainsKeys [OF s(3)]
  have l: "list_all (\<lambda>entry. normalizeResolverKey (fst entry) \<in> set (map fst (resolversByResKey st')) \<and>
                          normalizeResolverKey (fst entry) \<in> set (map fst (dsKeysByResKey st')))
          earlier"
    using s(4) k by (auto simp: list_all_iff retainsKeys_def)
  from s(1,2,3) l addResolver_Inl_effect [OF s(3)] show ?thesis
    by blast
qed

lemma addDataSources_failed:
  "addDataSources P scope batch st = (Some e, st') \<Longrightarrow>
     \<exists>earlier key dsValue rest st1.
        batch = earlier @ (key, dsValue) # rest \<and>
        addDataSources P scope earlier st = (None, st1) \<and>
        addDataSource P scope key dsValue st1 = (Inl e, st') \<and>
        list_all (\<lambda>entry. fst entry = ''__proto__'' \<or>
                    fst entry \<in> set (map fst (dataSourcesByDsKey st'))) earlier \<and>
        registries st' = registries st1"
proof (induction batch arbitrary: st)
  case Nil
  then show ?case by simp
next
  case (Cons entry batch)
  obtain key dsValue where entry: "entry = (key, dsValue)" by (cases entry)
  obtain res sta where step: "addDataSource P scope key dsValue st = (res, sta)"
    by (cases "addDataSource P scope key dsValue st")
  show ?case
  proof (cases res)
    case (Inl e')
    with Cons.prems entry step have e: "e' = e" "sta = st'" by simp_all
    have a: "addDataSource P scope key dsValue st = (Inl e, st')"
      using step Inl e by simp
    have "registries st' = registries st"
      using addDataSource_Inl [OF a] by (simp add: outsideProvider_def)
    then have "entry # batch = [] @ (key, dsValue) # batch \<and>
        addDataSources P scope [] st = (None, st) \<and>
        addDataSource P scope key dsValue st = (Inl e, st') \<and>
        list_all (\<lambda>entry. fst entry = ''__proto__'' \<or>
                    fst entry \<in> set (map fst (dataSourcesByDsKey st'))) [] \<and>
        registries st' = registries st"
      using a entry by simp
    then show ?thesis by blast
  next
    case (Inr lambda)
    let ?stb = "replayPermissions lambda sta"
    have a: "addDataSource P scope key dsValue st = (Inr lambda, sta)"
      using step Inr by simp
    have rest: "addDataSources P scope batch ?stb = (Some e, st')"
      using Cons.prems entry a by simp
    from Cons.IH [OF rest] obtain earlier k v post st1 where
      ih: "batch = earlier @ (k, v) # post"
        "addDataSources P scope earlier ?stb = (None, st1)"
        "addDataSource P scope k v st1 = (Inl e, st')"
        "list_all (\<lambda>entry. fst entry = ''__proto__'' \<or>
                    fst entry \<in> set (map fst (dataSourcesByDsKey st'))) earlier"
        "registries st' = registries st1"
      by blast
    have keep: "retainsKeys sta st'"
      using retainsKeys_replay addDataSources_retainsKeys [OF rest] retainsKeys_trans by blast
    have "key = ''__proto__'' \<or> key \<in> set (map fst (dataSourcesByDsKey sta))"
    proof (cases "key = ''__proto__''")
      case True
      then show ?thesis by simp
    next
      case False
      with addDataSource_Inr(1) [OF a] obtain d where
        "dataSourcesByDsKey sta = AList.update key d (dataSourcesByDsKey st)"
        by auto
      then show ?thesis by (simp add: map_fst_update)
    qed
    then have here: "key = ''__proto__'' \<or> key \<in> set (map fst (dataSourcesByDsKey st'))"
      using keep by (auto simp: retainsKeys_def)
    have "entry # batch = (entry # earlier) @ (k, v) # post \<and>
        addDataSources P scope (entry # earlier) st = (None, st1) \<and>
        addDataSource P scope k v st1 = (Inl e, st') \<and>
        list_all (\<lambda>entry. fst entry = ''__proto__'' \<or>
                    fst entry \<in> set (map fst (dataSourcesByDsKey st'))) (entry # earlier) \<and>
        registries st' = registries st1"
      using ih here entry a by simp
    then show ?thesis by blast
  qed
qed

text \<open>
  Claim C9, as amended. A batch that fails has run its entries in order up to
  the one that failed: the state is the one that entry left, the error is the
  one it raised, and the entries after it were never looked at. The resolver
  keys of the earlier entries are in the resolver registry and in the index
  (for data sources, their keys are in the data-source registry, but for
  \<^verbatim>\<open>__proto__\<close>, which is no key). A failing data source changes no registry.
  A failing resolver leaves the resolver registry as the earlier entries left
  it, and the other registries too unless its error is the provider's refusal
  of the resolver; then it has written its own keys and no other: the index
  differs at most under its resolver key, and the registries of functions and
  data sources at most under the key it derives. No call, failed or not,
  removes a key from a registry.
\<close>

theorem failed_batch_keeps_earlier_entries:
  "(addResolvers P scope batch st = (Some e, st') \<longrightarrow>
     (\<exists>earlier key resValue rest st1.
        batch = earlier @ (key, resValue) # rest \<and>
        addResolvers P scope earlier st = (None, st1) \<and>
        addResolver P scope key resValue st1 = (Inl e, st') \<and>
        list_all (\<lambda>entry. normalizeResolverKey (fst entry) \<in> set (map fst (resolversByResKey st')) \<and>
                          normalizeResolverKey (fst entry) \<in> set (map fst (dsKeysByResKey st')))
          earlier \<and>
        resolversByResKey st' = resolversByResKey st1 \<and>
        functionsPrototype st' = functionsPrototype st1 \<and>
        dataSourcesPrototype st' = dataSourcesPrototype st1 \<and>
        (\<forall>k. k \<noteq> normalizeResolverKey key \<longrightarrow>
             map_of (dsKeysByResKey st') k = map_of (dsKeysByResKey st1) k) \<and>
        (\<forall>k. Some k \<noteq> derivedKey key \<longrightarrow>
             map_of (functionsByDsKey st') k = map_of (functionsByDsKey st1) k \<and>
             map_of (dataSourcesByDsKey st') k = map_of (dataSourcesByDsKey st1) k) \<and>
        ((\<forall>t f d c. e \<noteq> ProviderError (CreateResolver t f d c)) \<longrightarrow>
           registries st' = registries st1))) \<and>
   (addDataSources P scope dsBatch st = (Some e, st') \<longrightarrow>
     (\<exists>earlier key dsValue rest st1.
        dsBatch = earlier @ (key, dsValue) # rest \<and>
        addDataSources P scope earlier st = (None, st1) \<and>
        addDataSource P scope key dsValue st1 = (Inl e, st') \<and>
        list_all (\<lambda>entry. fst entry = ''__proto__'' \<or>
                    fst entry \<in> set (map fst (dataSourcesByDsKey st'))) earlier \<and>
        registries st' = registries st1)) \<and>
   (addResolvers P scope batch st = (res, st') \<longrightarrow> retainsKeys st st') \<and>
   (addDataSources P scope dsBatch st = (res, st') \<longrightarrow> retainsKeys st st')"
proof (intro conjI impI)
  assume "addResolvers P scope batch st = (Some e, st')"
  then show "\<exists>earlier key resValue rest st1.
        batch = earlier @ (key, resValue) # rest \<and>
        addResolvers P scope earlier st = (None, st1) \<and>
        addResolver P scope key resValue st1 = (Inl e, st') \<and>
        list_all (\<lambda>entry. normalizeResolverKey (fst entry) \<in> set (map fst (resolversByResKey st')) \<and>
                          normalizeResolverKey (fst entry) \<in> set (map fst (dsKeysByResKey st')))
          earlier \<and>
        resolversByResKey st' = resolversByResKey st1 \<and>
        functionsPrototype st' = functionsPrototype st1 \<and>
        dataSourcesPrototype st' = dataSourcesPrototype st1 \<and>
        (\<forall>k. k \<noteq> normalizeResolverKey key \<longrightarrow>
             map_of (dsKeysByResKey st') k = map_of (dsKeysByResKey st1) k) \<and>
        (\<forall>k. Some k \<noteq> derivedKey key \<longrightarrow>
             map_of (functionsByDsKey st') k = map_of (functionsByDsKey st1) k \<and>
             map_of (dataSourcesByDsKey st') k = map_of (dataSourcesByDsKey st1) k) \<and>
        ((\<forall>t f d c. e \<noteq> ProviderError (CreateResolver t f d c)) \<longrightarrow>
           registries st' = registries st1)"
    by (rule addResolvers_failed)
next
  assume "addDataSources P scope dsBatch st = (Some e, st')"
  then show "\<exists>earlier key dsValue rest st1.
        dsBatch = earlier @ (key, dsValue) # rest \<and>
        addDataSources P scope earlier st = (None, st1) \<and>
        addDataSource P scope key dsValue st1 = (Inl e, st') \<and>
        list_all (\<lambda>entry. fst entry = ''__proto__'' \<or>
                    fst entry \<in> set (map fst (dataSourcesByDsKey st'))) earlier \<and>
        registries st' = registries st1"
    by (rule addDataSources_failed)
next
  assume "addResolvers P scope batch st = (res, st')"
  then show "retainsKeys st st'"
    by (rule addResolvers_retainsKeys)
next
  assume "addDataSources P scope dsBatch st = (res, st')"
  then show "retainsKeys st st'"
    by (rule addDataSources_retainsKeys)
qed


theorem failed_batch_keeps_earlier_entries_witness:
  "fst (addResolvers uniqueNames ''stack''
          [(''Query b'', ResString ''dsB''), (''Query  a'', ResString ''src/new.main''),
           (''Query d'', ResString ''dsA'')] twoSourcesApi) =
     Some (ProviderError
             (CreateResolver ''Query'' ''a''
                (Value \<lparr>dsHandle = 8, dsKey = ''LambdaDS_Query_a'', dsBacking = LambdaBacking 7,
                         dsName = None, dsDescription = None\<rparr>) emptyConfig)) \<and>
   retainsKeys twoSourcesApi (snd (addResolvers uniqueNames ''stack''
          [(''Query b'', ResString ''dsB''), (''Query  a'', ResString ''src/new.main''),
           (''Query d'', ResString ''dsA'')] twoSourcesApi)) \<and>
   (\<exists>earlier key resValue rest st1.
      [(''Query b'', ResString ''dsB''), (''Query  a'', ResString ''src/new.main''),
       (''Query d'', ResString ''dsA'')] = earlier @ (key, resValue) # rest \<and>
      addResolvers uniqueNames ''stack'' earlier twoSourcesApi = (None, st1) \<and>
      resolversByResKey (snd (addResolvers uniqueNames ''stack''
          [(''Query b'', ResString ''dsB''), (''Query  a'', ResString ''src/new.main''),
           (''Query d'', ResString ''dsA'')] twoSourcesApi)) = resolversByResKey st1 \<and>
      (\<forall>k. k \<noteq> normalizeResolverKey key \<longrightarrow>
           map_of (dsKeysByResKey (snd (addResolvers uniqueNames ''stack''
              [(''Query b'', ResString ''dsB''), (''Query  a'', ResString ''src/new.main''),
               (''Query d'', ResString ''dsA'')] twoSourcesApi))) k =
           map_of (dsKeysByResKey st1) k)) \<and>
   fst (addDataSources uniqueNames ''stack''
          [(''dsC'', DsHandler ''src/c.main''), (''dsA'', DsHandler ''src/a.main'')]
          twoSourcesApi) \<noteq> None \<and>
   (\<exists>earlier key dsValue rest st1.
      [(''dsC'', DsHandler ''src/c.main''), (''dsA'', DsHandler ''src/a.main'')] =
        earlier @ (key, dsValue) # rest \<and>
      addDataSources uniqueNames ''stack'' earlier twoSourcesApi = (None, st1) \<and>
      registries (snd (addDataSources uniqueNames ''stack''
          [(''dsC'', DsHandler ''src/c.main''), (''dsA'', DsHandler ''src/a.main'')]
          twoSourcesApi)) = registries st1)"
proof -
  let ?batch = "[(''Query b'', ResString ''dsB''), (''Query  a'', ResString ''src/new.main''),
           (''Query d'', ResString ''dsA'')]"
  let ?dsBatch = "[(''dsC'', DsHandler ''src/c.main''), (''dsA'', DsHandler ''src/a.main'')]"
  let ?e = "ProviderError
             (CreateResolver ''Query'' ''a''
                (Value \<lparr>dsHandle = 8, dsKey = ''LambdaDS_Query_a'', dsBacking = LambdaBacking 7,
                         dsName = None, dsDescription = None\<rparr>) emptyConfig)"
  let ?e2 = "the (fst (addDataSources uniqueNames ''stack'' ?dsBatch twoSourcesApi))"
  let ?st' = "snd (addResolvers uniqueNames ''stack'' ?batch twoSourcesApi)"
  let ?st2 = "snd (addDataSources uniqueNames ''stack'' ?dsBatch twoSourcesApi)"
  have r: "fst (addResolvers uniqueNames ''stack'' ?batch twoSourcesApi) = Some ?e"
    by code_simp
  have r2: "fst (addDataSources uniqueNames ''stack'' ?dsBatch twoSourcesApi) \<noteq> None"
    by code_simp
  have run: "addResolvers uniqueNames ''stack'' ?batch twoSourcesApi = (Some ?e, ?st')"
    using r by (simp add: prod_eq_iff)
  have run2: "addDataSources uniqueNames ''stack'' ?dsBatch twoSourcesApi = (Some ?e2, ?st2)"
    using r2 by (simp add: prod_eq_iff)
  note a = failed_batch_keeps_earlier_entries
    [where P = uniqueNames and scope = "''stack''" and batch = ?batch and st = twoSourcesApi
       and e = ?e and st' = ?st' and res = "Some ?e" and dsBatch = "[]"]
  note b = failed_batch_keeps_earlier_entries
    [where P = uniqueNames and scope = "''stack''" and batch = "[]" and st = twoSourcesApi
       and e = ?e2 and st' = ?st2 and res = "Some ?e2" and dsBatch = ?dsBatch]
  note a1 = a [THEN conjunct1, THEN mp, OF run]
  note a3 = a [THEN conjunct2, THEN conjunct2, THEN conjunct1, THEN mp, OF run]
  note b2 = b [THEN conjunct2, THEN conjunct1, THEN mp, OF run2]
  from a1 obtain earlier key resValue rest st1 where
    1: "?batch = earlier @ (key, resValue) # rest"
      "addResolvers uniqueNames ''stack'' earlier twoSourcesApi = (None, st1)"
      "resolversByResKey ?st' = resolversByResKey st1"
      "\<forall>k. k \<noteq> normalizeResolverKey key \<longrightarrow>
           map_of (dsKeysByResKey ?st') k = map_of (dsKeysByResKey st1) k"
    by (elim exE conjE)
  from b2 obtain earlier2 key2 dsValue2 rest2 st2 where
    2: "?dsBatch = earlier2 @ (key2, dsValue2) # rest2"
      "addDataSources uniqueNames ''stack'' earlier2 twoSourcesApi = (None, st2)"
      "registries ?st2 = registries st2"
    by (elim exE conjE)
  have 3: "\<exists>earlier key resValue rest st1.
      ?batch = earlier @ (key, resValue) # rest \<and>
      addResolvers uniqueNames ''stack'' earlier twoSourcesApi = (None, st1) \<and>
      resolversByResKey ?st' = resolversByResKey st1 \<and>
      (\<forall>k. k \<noteq> normalizeResolverKey key \<longrightarrow>
           map_of (dsKeysByResKey ?st') k = map_of (dsKeysByResKey st1) k)"
    using 1 by (intro exI conjI)
  have 4: "\<exists>earlier key dsValue rest st1.
      ?dsBatch = earlier @ (key, dsValue) # rest \<and>
      addDataSources uniqueNames ''stack'' earlier twoSourcesApi = (None, st1) \<and>
      registries ?st2 = registries st1"
    using 2 by (intro exI conjI)
  show ?thesis
    using r a3 3 r2 4 by (intro conjI)
qed

text \<open>
  Claim C9 as stated says that the failing entry is not registered and that
  the earlier ones remain as they were. Where the provider refuses the
  resolver, the entry has already been written: the refused entry
  \<^verbatim>\<open>Query  a\<close> leaves the resolver key \<^verbatim>\<open>Query a\<close>, bound to \<^verbatim>\<open>dsA\<close> by an
  earlier entry, bound to \<^verbatim>\<open>dsB\<close>; and with a function of its own it leaves
  that function and its data source registered under the derived key.
\<close>

theorem refused_resolver_changes_index:
  "map_of (dsKeysByResKey twoSourcesApi) ''Query a'' = Some ''dsA'' \<and>
   fst (addResolvers uniqueNames ''stack'' [(''Query  a'', ResString ''dsB'')] twoSourcesApi) =
     Some (ProviderError
             (CreateResolver ''Query'' ''a''
                (getProperty (dataSourcesByDsKey twoSourcesApi) (dataSourcesPrototype twoSourcesApi)
                   ''dsB'')
                emptyConfig)) \<and>
   map_of (dsKeysByResKey
     (snd (addResolvers uniqueNames ''stack'' [(''Query  a'', ResString ''dsB'')] twoSourcesApi)))
     ''Query a'' = Some ''dsB'' \<and>
   map fst (dataSourcesByDsKey twoSourcesApi) = [''dsA'', ''dsB''] \<and>
   fst (addResolvers uniqueNames ''stack'' [(''Query  a'', ResString ''src/new.main'')]
          twoSourcesApi) =
     Some (ProviderError
             (CreateResolver ''Query'' ''a''
                (Value \<lparr>dsHandle = 7, dsKey = ''LambdaDS_Query_a'', dsBacking = LambdaBacking 6,
                         dsName = None, dsDescription = None\<rparr>) emptyConfig)) \<and>
   map fst (dataSourcesByDsKey
     (snd (addResolvers uniqueNames ''stack'' [(''Query  a'', ResString ''src/new.main'')]
             twoSourcesApi))) = [''dsA'', ''dsB'', ''LambdaDS_Query_a''] \<and>
   map_of (functionsByDsKey
     (snd (addResolvers uniqueNames ''stack'' [(''Query  a'', ResString ''src/new.main'')]
             twoSourcesApi))) ''LambdaDS_Query_a'' = Some 6"
  by code_simp

section \<open>Global permissions\<close>

lemma grantsExceptI:
  assumes "\<And>k fn. (k, fn) \<in> set (functionsByDsKey st) \<Longrightarrow> k \<notin> set exempt \<Longrightarrow>
             subseq (permissionsAttachedForAllFunctions st) (grantsOf st fn)"
    and "\<And>fn p. (fn, p) \<in> set (attached st) \<Longrightarrow> p \<in> set (permissionsAttachedForAllFunctions st)"
  shows "grantsExcept exempt st"
  unfolding grantsExcept_def list_all_iff using assms by fastforce

lemma grantsExcept_held:
  "grantsExcept exempt st \<Longrightarrow> (k, fn) \<in> set (functionsByDsKey st) \<Longrightarrow> k \<notin> set exempt \<Longrightarrow>
     subseq (permissionsAttachedForAllFunctions st) (grantsOf st fn)"
  unfolding grantsExcept_def list_all_iff by fastforce

lemma grantsExcept_retained:
  "grantsExcept exempt st \<Longrightarrow> (fn, p) \<in> set (attached st) \<Longrightarrow>
     p \<in> set (permissionsAttachedForAllFunctions st)"
  unfolding grantsExcept_def list_all_iff by fastforce

lemma grantsOf_same: "attached st' = attached st \<Longrightarrow> grantsOf st' fn = grantsOf st fn"
  by (simp add: grantsOf_def)

lemma grantsOf_append:
  "attached st' = attached st @ extra \<Longrightarrow>
     grantsOf st' fn = grantsOf st fn @ map snd (filter (\<lambda>entry. fst entry = fn) extra)"
  by (simp add: grantsOf_def)

lemma grants_of_attach:
  "fn \<in> set fns \<Longrightarrow>
     subseq [p] (map snd (filter (\<lambda>entry. fst entry = fn) (map (\<lambda>f. (f, p)) fns)))"
  by (induction fns) auto

text \<open>A global grant reaches every function that is registered, and is retained.\<close>

lemma attachPermissions_except:
  assumes "grantsExcept exempt st"
  shows "grantsExcept exempt (attachPermissions permissions st)"
proof (rule grantsExceptI)
  let ?st' = "attachPermissions permissions st"
  let ?ps = "permissionsAttachedForAllFunctions st"
  let ?extra = "map (\<lambda>fn. (fn, permissions)) (map snd (functionsByDsKey st))"
  have fields: "functionsByDsKey ?st' = functionsByDsKey st"
    "permissionsAttachedForAllFunctions ?st' = ?ps @ [permissions]"
    "attached ?st' = attached st @ ?extra"
    by (simp_all add: attachPermissions_eq)
  fix k fn
  assume "(k, fn) \<in> set (functionsByDsKey ?st')" and out: "k \<notin> set exempt"
  then have reg: "(k, fn) \<in> set (functionsByDsKey st)"
    by (simp only: fields)
  have 1: "subseq ?ps (grantsOf st fn)"
    using assms reg out by (rule grantsExcept_held)
  have "fn \<in> set (map snd (functionsByDsKey st))"
    using reg by force
  then have 2: "subseq [permissions] (map snd (filter (\<lambda>entry. fst entry = fn) ?extra))"
    by (rule grants_of_attach)
  have "grantsOf ?st' fn = grantsOf st fn @ map snd (filter (\<lambda>entry. fst entry = fn) ?extra)"
    using fields(3) by (rule grantsOf_append)
  then show "subseq (permissionsAttachedForAllFunctions ?st') (grantsOf ?st' fn)"
    using list_emb_append_mono [OF 1 2] by (simp only: fields)
next
  let ?st' = "attachPermissions permissions st"
  fix fn p
  assume "(fn, p) \<in> set (attached ?st')"
  then have "(fn, p) \<in> set (attached st) \<or> p = permissions"
    by (auto simp: attachPermissions_eq)
  then show "p \<in> set (permissionsAttachedForAllFunctions ?st')"
    using grantsExcept_retained [OF assms] by (auto simp: attachPermissions_eq)
qed

text \<open>
  An entry that completes: the function that came back is given the retained
  permissions, and the registry holds old entries and entries of that function.
\<close>

lemma replay_except:
  assumes "grantsExcept exempt st"
    and "permissionsAttachedForAllFunctions st1 = permissionsAttachedForAllFunctions st"
    and "attached st1 = attached st"
    and "\<And>k f. (k, f) \<in> set (functionsByDsKey st1) \<Longrightarrow>
           (k, f) \<in> set (functionsByDsKey st) \<or> lambda = Some f"
  shows "grantsExcept exempt (replayPermissions lambda st1)"
proof (rule grantsExceptI)
  let ?ps = "permissionsAttachedForAllFunctions st"
  let ?st2 = "replayPermissions lambda st1"
  let ?new = "case lambda of None \<Rightarrow> [] | Some fn \<Rightarrow> map (Pair fn) ?ps"
  have fns: "functionsByDsKey ?st2 = functionsByDsKey st1"
    and ps: "permissionsAttachedForAllFunctions ?st2 = ?ps"
    and log: "attached ?st2 = attached st @ ?new"
    using assms(2,3) by (simp_all add: replayPermissions_eq split: option.splits)
  have own: "map snd (filter (\<lambda>entry. fst entry = fn) (map (Pair fn) qs)) = qs" for fn qs
    by (induction qs) simp_all
  have other: "filter (\<lambda>entry. fst entry = f) (map (Pair fn) qs) = []" if "f \<noteq> fn" for f fn qs
    using that by (induction qs) simp_all
  have grants: "grantsOf ?st2 f = grantsOf st f @ (if lambda = Some f then ?ps else [])" for f
    using grantsOf_append [OF log, of f]
    by (cases lambda) (simp_all add: own other comp_def)
  {
    fix k f
    assume reg: "(k, f) \<in> set (functionsByDsKey ?st2)" and out: "k \<notin> set exempt"
    show "subseq (permissionsAttachedForAllFunctions ?st2) (grantsOf ?st2 f)"
    proof (cases "lambda = Some f")
      case True
      show ?thesis
        unfolding ps grants using True by (simp add: list_emb_append2)
    next
      case False
      have "(k, f) \<in> set (functionsByDsKey st1)"
        using reg by (simp only: fns)
      from assms(4) [OF this] False have "(k, f) \<in> set (functionsByDsKey st)"
        by simp
      from grantsExcept_held [OF assms(1) this out] show ?thesis
        unfolding ps grants using False by simp
    qed
  next
    fix f p
    assume "(f, p) \<in> set (attached ?st2)"
    then have "(f, p) \<in> set (attached st) \<or> (f, p) \<in> set ?new"
      by (simp add: log)
    then show "p \<in> set (permissionsAttachedForAllFunctions ?st2)"
    proof
      assume "(f, p) \<in> set (attached st)"
      from grantsExcept_retained [OF assms(1) this] show ?thesis
        by (simp only: ps)
    next
      assume "(f, p) \<in> set ?new"
      then have "p \<in> set ?ps"
        by (cases lambda) auto
      then show ?thesis
        by (simp only: ps)
    qed
  }
qed

text \<open>
  An entry that fails: nothing is attached, and the registry holds old
  entries and, at most, entries under keys that are exempt from now on.
\<close>

lemma failed_except:
  assumes "grantsExcept exempt st"
    and "permissionsAttachedForAllFunctions st1 = permissionsAttachedForAllFunctions st"
    and "attached st1 = attached st"
    and "\<And>k f. (k, f) \<in> set (functionsByDsKey st1) \<Longrightarrow>
           (k, f) \<in> set (functionsByDsKey st) \<or> k \<in> set extra"
  shows "grantsExcept (extra @ exempt) st1"
proof (rule grantsExceptI)
  fix k f
  assume reg: "(k, f) \<in> set (functionsByDsKey st1)" and out: "k \<notin> set (extra @ exempt)"
  from assms(4) [OF reg] out have "(k, f) \<in> set (functionsByDsKey st)" and "k \<notin> set exempt"
    by simp_all
  from grantsExcept_held [OF assms(1) this]
  show "subseq (permissionsAttachedForAllFunctions st1) (grantsOf st1 f)"
    by (simp only: assms(2) grantsOf_same [OF assms(3)])
next
  fix f p
  assume "(f, p) \<in> set (attached st1)"
  then have "(f, p) \<in> set (attached st)"
    by (simp only: assms(3))
  from grantsExcept_retained [OF assms(1) this]
  show "p \<in> set (permissionsAttachedForAllFunctions st1)"
    by (simp only: assms(2))
qed

lemma grantsExcept_mono:
  assumes "grantsExcept exempt st" and "set exempt \<subseteq> set exempt'"
  shows "grantsExcept exempt' st"
proof (rule grantsExceptI)
  fix k f
  assume "(k, f) \<in> set (functionsByDsKey st)" and "k \<notin> set exempt'"
  with assms(2) have "(k, f) \<in> set (functionsByDsKey st)" and "k \<notin> set exempt"
    by auto
  from grantsExcept_held [OF assms(1) this]
  show "subseq (permissionsAttachedForAllFunctions st) (grantsOf st f)" .
next
  fix f p
  assume "(f, p) \<in> set (attached st)"
  from grantsExcept_retained [OF assms(1) this]
  show "p \<in> set (permissionsAttachedForAllFunctions st)" .
qed

text \<open>What one entry does to the function registry, the log and the retained list.\<close>

lemma addDataSource_grants:
  assumes "addDataSource P scope key dsValue st = (res, st')"
  shows "permissionsAttachedForAllFunctions st' = permissionsAttachedForAllFunctions st \<and>
         attached st' = attached st \<and>
         (\<forall>k f. (k, f) \<in> set (functionsByDsKey st') \<longrightarrow>
            (k, f) \<in> set (functionsByDsKey st) \<or> res = Inr (Some f))"
proof (cases res)
  case (Inl e)
  with assms show ?thesis
    by (auto dest!: addDataSource_Inl outsideProvider_fields)
next
  case (Inr lambda)
  note run = assms [unfolded Inr]
  have "(k, f) \<in> set (functionsByDsKey st) \<or> lambda = Some f"
    if "(k, f) \<in> set (functionsByDsKey st')" for k f
    using that addDataSource_Inr(2) [OF run]
    by (cases lambda) (auto dest: set_update split: if_splits)
  then show ?thesis
    using addDataSource_Inr(6,7) [OF run] Inr by simp
qed

lemma addResolver_grants:
  assumes "addResolver P scope key resValue st = (res, st')"
  shows "permissionsAttachedForAllFunctions st' = permissionsAttachedForAllFunctions st \<and>
         attached st' = attached st \<and>
         (\<forall>k f. (k, f) \<in> set (functionsByDsKey st') \<longrightarrow>
            (k, f) \<in> set (functionsByDsKey st) \<or>
            (case res of Inr lambda \<Rightarrow> lambda = Some f
             | Inl e \<Rightarrow> k \<in> set (refusedKeys [Some e])))"
  using assms
proof (cases rule: addResolver_cases)
  case (invalid e)
  then show ?thesis by simp
next
  case (unbound typeName fieldName e)
  then show ?thesis
    using outsideProvider_fields [OF bindResolver_frame [OF unbound(2)]] by simp
next
  case (refused typeName fieldName b st1)
  note f = outsideProvider_fields [OF bindResolver_frame [OF refused(2)]]
  note s = bindResolver_store [OF refused(2)]
  have keep: "permissionsAttachedForAllFunctions st' = permissionsAttachedForAllFunctions st \<and>
         attached st' = attached st"
    unfolding refused(5) using f by (simp add: storeBinding_fields)
  have "(k, fn) \<in> set (functionsByDsKey st) \<or> k \<in> set (refusedKeys [Some e])"
    if reg: "(k, fn) \<in> set (functionsByDsKey st')" and e: "res = Inl e" for k fn e
  proof (cases "bLambda b")
    case None
    from s(3) [OF None] reg show ?thesis
      unfolding refused(5) by simp
  next
    case (Some lambda)
    from s(4) [OF Some] obtain d where
      d: "bDataSource b = Value d" "dsKey d = buildDataSourceKey typeName fieldName"
        "functionsByDsKey (storeBinding (normalizeResolverKey key) b st1) =
           AList.update (buildDataSourceKey typeName fieldName) lambda (functionsByDsKey st)"
      by blast
    have "refusedKeys [Some e] = [buildDataSourceKey typeName fieldName]"
      using e refused(4) d(1,2) by auto
    moreover have "k = buildDataSourceKey typeName fieldName \<or> (k, fn) \<in> set (functionsByDsKey st)"
      using reg d(3) unfolding refused(5) by (auto dest: set_update)
    ultimately show ?thesis by auto
  qed
  then show ?thesis
    using keep refused(4) by simp
next
  case (created typeName fieldName b st1)
  note f = outsideProvider_fields [OF bindResolver_frame [OF created(2)]]
  note s = bindResolver_store [OF created(2)]
  have keep: "permissionsAttachedForAllFunctions st' = permissionsAttachedForAllFunctions st \<and>
         attached st' = attached st"
    unfolding created(5) using f by (simp add: storeBinding_fields)
  have fns: "functionsByDsKey st' =
               functionsByDsKey (storeBinding (normalizeResolverKey key) b st1)"
    unfolding created(5) by simp
  have "(k, fn) \<in> set (functionsByDsKey st) \<or> bLambda b = Some fn"
    if reg: "(k, fn) \<in> set (functionsByDsKey st')" for k fn
  proof (cases "bLambda b")
    case None
    from s(3) [OF None] reg fns show ?thesis
      by simp
  next
    case (Some lambda)
    from s(4) [OF Some] obtain d where
      d: "functionsByDsKey (storeBinding (normalizeResolverKey key) b st1) =
           AList.update (buildDataSourceKey typeName fieldName) lambda (functionsByDsKey st)"
      by blast
    from reg fns d Some show ?thesis
      by (auto dest: set_update)
  qed
  then show ?thesis
    using keep created(4) by simp
qed

lemma replayPermissions_retained:
  "permissionsAttachedForAllFunctions (replayPermissions lambda st) =
     permissionsAttachedForAllFunctions st"
  by (simp add: replayPermissions_eq split: option.splits)

lemma addDataSources_except:
  "addDataSources P scope batch st = (outcome, st') \<Longrightarrow> grantsExcept exempt st \<Longrightarrow>
     grantsExcept exempt st' \<and>
     permissionsAttachedForAllFunctions st' = permissionsAttachedForAllFunctions st"
proof (induction batch arbitrary: st)
  case Nil
  then show ?case by simp
next
  case (Cons entry batch)
  obtain key dsValue where entry: "entry = (key, dsValue)" by (cases entry)
  obtain r sta where step: "addDataSource P scope key dsValue st = (r, sta)"
    by (cases "addDataSource P scope key dsValue st")
  note g = addDataSource_grants [OF step]
  show ?case
  proof (cases r)
    case (Inl e)
    have "grantsExcept ([] @ exempt) sta"
      using g Inl by (intro failed_except [OF Cons.prems(2)]) simp_all
    with Cons.prems(1) entry step Inl g show ?thesis by simp
  next
    case (Inr lambda)
    have inv: "grantsExcept exempt (replayPermissions lambda sta)"
      using g Inr by (intro replay_except [OF Cons.prems(2)]) simp_all
    from Cons.prems(1) entry step Inr
    have "addDataSources P scope batch (replayPermissions lambda sta) = (outcome, st')" by simp
    from Cons.IH [OF this inv] g show ?thesis
      by (simp add: replayPermissions_retained)
  qed
qed

lemma addResolvers_except:
  "addResolvers P scope batch st = (outcome, st') \<Longrightarrow> grantsExcept exempt st \<Longrightarrow>
     grantsExcept (refusedKeys [outcome] @ exempt) st' \<and>
     permissionsAttachedForAllFunctions st' = permissionsAttachedForAllFunctions st"
proof (induction batch arbitrary: st)
  case Nil
  then show ?case by simp
next
  case (Cons entry batch)
  obtain key resValue where entry: "entry = (key, resValue)" by (cases entry)
  obtain r sta where step: "addResolver P scope key resValue st = (r, sta)"
    by (cases "addResolver P scope key resValue st")
  note g = addResolver_grants [OF step]
  show ?case
  proof (cases r)
    case (Inl e)
    have "grantsExcept (refusedKeys [Some e] @ exempt) sta"
      using g Inl by (intro failed_except [OF Cons.prems(2)]) simp_all
    with Cons.prems(1) entry step Inl g show ?thesis by simp
  next
    case (Inr lambda)
    have inv: "grantsExcept exempt (replayPermissions lambda sta)"
      using g Inr by (intro replay_except [OF Cons.prems(2)]) simp_all
    from Cons.prems(1) entry step Inr
    have "addResolvers P scope batch (replayPermissions lambda sta) = (outcome, st')" by simp
    from Cons.IH [OF this inv] g show ?thesis
      by (simp add: replayPermissions_retained)
  qed
qed

lemma refusedKeys_Cons:
  "set (refusedKeys (outcome # outcomes)) = set (refusedKeys [outcome]) \<union> set (refusedKeys outcomes)"
proof (cases outcome)
  case None
  then show ?thesis by simp
next
  case (Some e)
  show ?thesis
  proof (cases e)
    case (ProviderError r)
    show ?thesis
    proof (cases r)
      case (CreateResolver t f d c)
      with Some ProviderError show ?thesis
        by (cases d) auto
    qed (simp_all add: Some ProviderError)
  qed (simp_all add: Some)
qed

lemma runCalls_except:
  "runCalls P calls st = (outcomes, st') \<Longrightarrow> grantsExcept exempt st \<Longrightarrow>
     grantsExcept (refusedKeys outcomes @ exempt) st' \<and>
     permissionsAttachedForAllFunctions st' =
       permissionsAttachedForAllFunctions st @ attachedBy calls"
proof (induction calls arbitrary: st outcomes exempt)
  case Nil
  then show ?case by simp
next
  case (Cons c calls)
  show ?case
  proof (cases c)
    case (AttachPermissions permissions)
    from runCalls_attach [OF Cons.prems(1) [unfolded AttachPermissions]] obtain os where
      os: "outcomes = None # os"
      and r: "runCalls P calls (attachPermissions permissions st) = (os, st')"
      by blast
    from Cons.IH [OF r attachPermissions_except [OF Cons.prems(2)]] show ?thesis
      by (simp add: os AttachPermissions attachPermissions_eq)
  next
    case (AddDataSources scope batch)
    from runCalls_addDataSources [OF Cons.prems(1) [unfolded AddDataSources]]
    obtain outcome st1 os where os: "outcomes = outcome # os"
      and a: "addDataSources P scope batch st = (outcome, st1)"
      and r: "runCalls P calls st1 = (os, st')"
      by blast
    note i = addDataSources_except [OF a Cons.prems(2)]
    from Cons.IH [OF r conjunct1 [OF i]]
    have 1: "grantsExcept (refusedKeys os @ exempt) st'"
      and 2: "permissionsAttachedForAllFunctions st' =
                permissionsAttachedForAllFunctions st1 @ attachedBy calls"
      by simp_all
    have "grantsExcept (refusedKeys outcomes @ exempt) st'"
      using 1 by (rule grantsExcept_mono) (use refusedKeys_Cons [of outcome os] in \<open>auto simp: os\<close>)
    with 2 i show ?thesis
      by (simp add: AddDataSources)
  next
    case (AddResolvers scope batch)
    from runCalls_addResolvers [OF Cons.prems(1) [unfolded AddResolvers]]
    obtain outcome st1 os where os: "outcomes = outcome # os"
      and a: "addResolvers P scope batch st = (outcome, st1)"
      and r: "runCalls P calls st1 = (os, st')"
      by blast
    note i = addResolvers_except [OF a Cons.prems(2)]
    from Cons.IH [OF r conjunct1 [OF i]]
    have 1: "grantsExcept (refusedKeys os @ refusedKeys [outcome] @ exempt) st'"
      and 2: "permissionsAttachedForAllFunctions st' =
                permissionsAttachedForAllFunctions st1 @ attachedBy calls"
      by simp_all
    have "grantsExcept (refusedKeys outcomes @ exempt) st'"
      using 1 by (rule grantsExcept_mono) (use refusedKeys_Cons [of outcome os] in \<open>auto simp: os\<close>)
    with 2 i show ?thesis
      by (simp add: AddResolvers)
  qed
qed

lemma grantsExcept_set:
  assumes "grantsExcept exempt st" and "(key, fn) \<in> set (functionsByDsKey st)"
    and "key \<notin> set exempt"
  shows "subseq (permissionsAttachedForAllFunctions st) (grantsOf st fn) \<and>
         set (grantsOf st fn) = set (permissionsAttachedForAllFunctions st)"
proof -
  have s: "subseq (permissionsAttachedForAllFunctions st) (grantsOf st fn)"
    using assms by (rule grantsExcept_held)
  have "set (grantsOf st fn) \<subseteq> set (permissionsAttachedForAllFunctions st)"
    using grantsExcept_retained [OF assms(1)] by (auto simp: grantsOf_def)
  moreover have "set (permissionsAttachedForAllFunctions st) \<subseteq> set (grantsOf st fn)"
    using s by (auto dest: list_emb_set)
  ultimately show ?thesis using s by blast
qed

lemma addDataSource_keeps:
  assumes "addDataSource P scope key dsValue st = (res, st')"
  shows "permissionsAttachedForAllFunctions st' = permissionsAttachedForAllFunctions st \<and>
         attached st' = attached st"
  using addDataSource_grants [OF assms] by simp

lemma addResolver_keeps:
  assumes "addResolver P scope key resValue st = (res, st')"
  shows "permissionsAttachedForAllFunctions st' = permissionsAttachedForAllFunctions st \<and>
         attached st' = attached st"
  using addResolver_grants [OF assms] by simp

lemma configureDataSources_keeps:
  "configureDataSources P scope batch st = (res, st') \<Longrightarrow>
     permissionsAttachedForAllFunctions st' = permissionsAttachedForAllFunctions st \<and>
     attached st' = attached st"
proof (induction batch arbitrary: st)
  case Nil
  then show ?case by simp
next
  case (Cons entry batch)
  obtain key dsValue where entry: "entry = (key, dsValue)" by (cases entry)
  obtain r sta where step: "addDataSource P scope key dsValue st = (r, sta)"
    by (cases "addDataSource P scope key dsValue st")
  note k = addDataSource_keeps [OF step]
  show ?case
  proof (cases r)
    case (Inl e)
    with Cons.prems entry step k show ?thesis by simp
  next
    case (Inr lambda)
    with Cons.prems entry step have "configureDataSources P scope batch sta = (res, st')" by simp
    from Cons.IH [OF this] k show ?thesis by simp
  qed
qed

lemma configureResolvers_keeps:
  "configureResolvers P scope batch st = (res, st') \<Longrightarrow>
     permissionsAttachedForAllFunctions st' = permissionsAttachedForAllFunctions st \<and>
     attached st' = attached st"
proof (induction batch arbitrary: st)
  case Nil
  then show ?case by simp
next
  case (Cons entry batch)
  obtain key resValue where entry: "entry = (key, resValue)" by (cases entry)
  obtain r sta where step: "addResolver P scope key resValue st = (r, sta)"
    by (cases "addResolver P scope key resValue st")
  note k = addResolver_keeps [OF step]
  show ?case
  proof (cases r)
    case (Inl e)
    with Cons.prems entry step k show ?thesis by simp
  next
    case (Inr lambda)
    with Cons.prems entry step have "configureResolvers P scope batch sta = (res, st')" by simp
    from Cons.IH [OF this] k show ?thesis by simp
  qed
qed

text \<open>A construct that has just been built has nothing retained and nothing attached.\<close>

lemma construct_grants:
  assumes "construct P scope ident props = (res, st)"
  shows "grantsExcept [] st \<and> permissionsAttachedForAllFunctions st = []"
proof -
  obtain r1 st1 where g: "createGraphApi P ident props (emptyApi props) = (r1, st1)"
    by (cases "createGraphApi P ident props (emptyApi props)")
  have 1: "permissionsAttachedForAllFunctions st1 = [] \<and> attached st1 = []"
    using g
    by (auto simp: createGraphApi_def emptyApi_def provide_def
        split: option.splits if_splits)
  have e: "permissionsAttachedForAllFunctions st = [] \<and> attached st = []"
  proof (cases r1)
    case (Some e)
    with assms g 1 show ?thesis by (simp add: construct_def)
  next
    case None
    obtain r2 st2 where d:
      "configureDataSources P (scope @ ''/'' @ ident) (propsDataSources props) st1 = (r2, st2)"
      by (cases "configureDataSources P (scope @ ''/'' @ ident) (propsDataSources props) st1")
    note 2 = configureDataSources_keeps [OF d]
    show ?thesis
    proof (cases r2)
      case (Some e)
      with assms g None d 1 2 show ?thesis by (simp add: construct_def)
    next
      case n2: None
      with assms g None d
      have "configureResolvers P (scope @ ''/'' @ ident) (propsResolvers props) st2 = (res, st)"
        by (simp add: construct_def)
      from configureResolvers_keeps [OF this] 1 2 show ?thesis by simp
    qed
  qed
  have "grantsExcept [] st"
    using e by (intro grantsExceptI) simp_all
  with e show ?thesis by simp
qed

lemma attachPermissions_reaches:
  assumes "(key, fn) \<in> set (functionsByDsKey st)"
  shows "permissions \<in> set (grantsOf (attachPermissions permissions st) fn)"
proof -
  let ?extra = "map (\<lambda>fn. (fn, permissions)) (map snd (functionsByDsKey st))"
  have "fn \<in> set (map snd (functionsByDsKey st))"
    using assms by force
  from grants_of_attach [OF this, of permissions]
  have "permissions \<in> set (map snd (filter (\<lambda>entry. fst entry = fn) ?extra))"
    by (auto dest: list_emb_set)
  moreover have "attached (attachPermissions permissions st) = attached st @ ?extra"
    by (simp add: attachPermissions_eq)
  ultimately show ?thesis
    by (simp add: grantsOf_append)
qed

text \<open>
  Claim C2, as amended. Take a construct in which every registered function
  holds the retained permissions (one that has just been built is such), and
  any sequence of \<^verbatim>\<open>attachPermissions\<close>, \<^verbatim>\<open>addDataSources\<close> and \<^verbatim>\<open>addResolvers\<close>
  calls, each of which may return or throw. After it the retained list is the
  old one followed by the permissions attached, in their order. Every function
  registered under a key that no refused resolver entry has written holds
  that list, in that order, and holds nothing else: the set of its
  permissions is the set of the retained ones, whatever the place of the
  attach calls among the add calls, so a second sequence that attaches the
  same permissions leaves its functions with the same set. One more global
  grant reaches every registered function at once and is retained.
\<close>

theorem global_grants_order_independent:
  assumes "grantsExcept [] st0"
    and "runCalls P calls st0 = (outcomes, st)"
    and "(key, fn) \<in> set (functionsByDsKey st)" and "key \<notin> set (refusedKeys outcomes)"
    and "runCalls P' calls' st0 = (outcomes', st')"
    and "(key', fn') \<in> set (functionsByDsKey st')" and "key' \<notin> set (refusedKeys outcomes')"
    and "set (attachedBy calls') = set (attachedBy calls)"
  shows "permissionsAttachedForAllFunctions st =
           permissionsAttachedForAllFunctions st0 @ attachedBy calls \<and>
         subseq (permissionsAttachedForAllFunctions st) (grantsOf st fn) \<and>
         set (grantsOf st fn) =
           set (permissionsAttachedForAllFunctions st0) \<union> set (attachedBy calls) \<and>
         set (grantsOf st' fn') = set (grantsOf st fn) \<and>
         permissions \<in> set (grantsOf (attachPermissions permissions st) fn) \<and>
         permissionsAttachedForAllFunctions (attachPermissions permissions st) =
           permissionsAttachedForAllFunctions st @ [permissions]"
proof -
  note a = runCalls_except [OF assms(2,1)]
  note b = runCalls_except [OF assms(5,1)]
  have out: "key \<notin> set (refusedKeys outcomes @ [])" "key' \<notin> set (refusedKeys outcomes' @ [])"
    using assms(4,7) by simp_all
  note ga = grantsExcept_set [OF conjunct1 [OF a] assms(3) out(1)]
  note gb = grantsExcept_set [OF conjunct1 [OF b] assms(6) out(2)]
  have 1: "permissionsAttachedForAllFunctions st =
             permissionsAttachedForAllFunctions st0 @ attachedBy calls"
    using a by simp
  have 2: "subseq (permissionsAttachedForAllFunctions st) (grantsOf st fn)"
    using ga by simp
  have 3: "set (grantsOf st fn) =
             set (permissionsAttachedForAllFunctions st0) \<union> set (attachedBy calls)"
    using ga 1 by simp
  have 4: "set (grantsOf st' fn') = set (grantsOf st fn)"
    using gb b 3 assms(8) by simp
  have 5: "permissions \<in> set (grantsOf (attachPermissions permissions st) fn)"
    using assms(3) by (rule attachPermissions_reaches)
  have 6: "permissionsAttachedForAllFunctions (attachPermissions permissions st) =
             permissionsAttachedForAllFunctions st @ [permissions]"
    by (simp add: attachPermissions_eq)
  show ?thesis
    by (intro conjI 1 2 3 4 5 6)
qed

theorem global_grants_order_independent_witness:
  "grantsExcept [] plainApi \<and>
   fst (runCalls uniqueNames
          [AttachPermissions [''s3''],
           AddResolvers ''stack'' [(''Query'', ResString ''src/list.main'')],
           AddDataSources ''stack'' [(''notesDS'', DsHandler ''src/notes.main'')],
           AttachPermissions [''dynamodb'']] plainApi) =
     [None, Some (InvalidResolverKey ''Query''), None, None] \<and>
   fst (runCalls uniqueNames
          [AddResolvers ''stack'' [(''Query listNotes'', ResString ''src/list.main'')],
           AttachPermissions [''dynamodb''], AttachPermissions [''s3'']] plainApi) =
     [None, None, None] \<and>
   grantsOf (snd (runCalls uniqueNames
          [AttachPermissions [''s3''],
           AddResolvers ''stack'' [(''Query'', ResString ''src/list.main'')],
           AddDataSources ''stack'' [(''notesDS'', DsHandler ''src/notes.main'')],
           AttachPermissions [''dynamodb'']] plainApi)) 1 = [[''s3''], [''dynamodb'']] \<and>
   set (grantsOf (snd (runCalls uniqueNames
          [AddResolvers ''stack'' [(''Query listNotes'', ResString ''src/list.main'')],
           AttachPermissions [''dynamodb''], AttachPermissions [''s3'']] plainApi)) 1) =
   set (grantsOf (snd (runCalls uniqueNames
          [AttachPermissions [''s3''],
           AddResolvers ''stack'' [(''Query'', ResString ''src/list.main'')],
           AddDataSources ''stack'' [(''notesDS'', DsHandler ''src/notes.main'')],
           AttachPermissions [''dynamodb'']] plainApi)) 1)"
proof -
  let ?calls = "[AttachPermissions [''s3''],
           AddResolvers ''stack'' [(''Query'', ResString ''src/list.main'')],
           AddDataSources ''stack'' [(''notesDS'', DsHandler ''src/notes.main'')],
           AttachPermissions [''dynamodb'']]"
  let ?calls' = "[AddResolvers ''stack'' [(''Query listNotes'', ResString ''src/list.main'')],
           AttachPermissions [''dynamodb''], AttachPermissions [''s3'']]"
  let ?os = "[None, Some (InvalidResolverKey ''Query''), None, None]"
  let ?os' = "[None, None, None] :: error option list"
  let ?st = "snd (runCalls uniqueNames ?calls plainApi)"
  let ?st' = "snd (runCalls uniqueNames ?calls' plainApi)"
  have inv: "grantsExcept [] plainApi"
    unfolding plainApi_def by (rule conjunct1 [OF construct_grants [OF surjective_pairing]])
  have r: "fst (runCalls uniqueNames ?calls plainApi) = ?os"
    by code_simp
  have r': "fst (runCalls uniqueNames ?calls' plainApi) = ?os'"
    by code_simp
  have run: "runCalls uniqueNames ?calls plainApi = (?os, ?st)"
    by (simp only: prod_eq_iff fst_conv snd_conv r)
  have run': "runCalls uniqueNames ?calls' plainApi = (?os', ?st')"
    by (simp only: prod_eq_iff fst_conv snd_conv r')
  have reg: "(''notesDS'', 1) \<in> set (functionsByDsKey ?st)"
    by code_simp
  have reg': "(''LambdaDS_Query_listNotes'', 1) \<in> set (functionsByDsKey ?st')"
    by code_simp
  have out: "''notesDS'' \<notin> set (refusedKeys ?os)"
    by simp
  have out': "''LambdaDS_Query_listNotes'' \<notin> set (refusedKeys ?os')"
    by simp
  have same: "set (attachedBy ?calls') = set (attachedBy ?calls)"
    by auto
  have g: "grantsOf ?st 1 = [[''s3''], [''dynamodb'']]"
    by code_simp
  note a = global_grants_order_independent [OF inv run reg out run' reg' out' same]
  note a4 = a [THEN conjunct2, THEN conjunct2, THEN conjunct2, THEN conjunct1]
  show ?thesis
    by (intro conjI inv r r' g a4)
qed

text \<open>
  Claim C2 as stated says that every function registered through
  \<^verbatim>\<open>addResolvers\<close> receives the retained permissions, whatever the order of
  the calls. A resolver entry that the provider refuses has registered its
  function already, and throws before the retained permissions are replayed: the
  function is left without them, and a later global grant is all it gets.
  With the grant attached after the refused entry the same function holds it.
\<close>

theorem refused_resolver_function_without_grants:
  "fst (runCalls uniqueNames
          [AttachPermissions [''s3''],
           AddResolvers ''stack'' [(''Query  a'', ResString ''src/new.main'')]] twoSourcesApi) =
     [None,
      Some (ProviderError (CreateResolver ''Query'' ''a''
        (Value \<lparr>dsHandle = 7, dsKey = ''LambdaDS_Query_a'', dsBacking = LambdaBacking 6,
                dsName = None, dsDescription = None\<rparr>) emptyConfig))] \<and>
   map_of (functionsByDsKey (snd (runCalls uniqueNames
          [AttachPermissions [''s3''],
           AddResolvers ''stack'' [(''Query  a'', ResString ''src/new.main'')]] twoSourcesApi)))
     ''LambdaDS_Query_a'' = Some 6 \<and>
   permissionsAttachedForAllFunctions (snd (runCalls uniqueNames
          [AttachPermissions [''s3''],
           AddResolvers ''stack'' [(''Query  a'', ResString ''src/new.main'')]] twoSourcesApi)) =
     [[''s3'']] \<and>
   grantsOf (snd (runCalls uniqueNames
          [AttachPermissions [''s3''],
           AddResolvers ''stack'' [(''Query  a'', ResString ''src/new.main'')]] twoSourcesApi)) 6 =
     [] \<and>
   map_of (functionsByDsKey (snd (runCalls uniqueNames
          [AddResolvers ''stack'' [(''Query  a'', ResString ''src/new.main'')],
           AttachPermissions [''s3'']] twoSourcesApi)))
     ''LambdaDS_Query_a'' = Some 6 \<and>
   grantsOf (snd (runCalls uniqueNames
          [AddResolvers ''stack'' [(''Query  a'', ResString ''src/new.main'')],
           AttachPermissions [''s3'']] twoSourcesApi)) 6 =
     [[''s3'']]"
  by code_simp

end
